theory Spec2Isabelle
  imports Complex_Main
begin

section \<open>Zinc finite element utilities (opencmiss.utils.zinc.finiteelement)\<close>

text \<open>
  The module is a layer of orchestration over the Zinc library. A nodeset is modelled by
  the list of its node identifiers in iteration order, a Zinc status code by
  \<open>result\<close> and a raised Python exception by a value of \<open>error\<close>. The coordinates
  that getNodeNameCentres and the nodeset evaluators work on are real numbers (rounding,
  infinities and NaN are not modelled there). The nodal parameters that createNodes and
  transformCoordinates read and write are of any type \<open>'v\<close> with a zero, an addition
  and a multiplication: the real numbers, or the type \<open>pyfloat\<close> below, which has the
  infinities, the NaN and the negative zero of a Python float.
\<close>

datatype result =
    RESULT_OK
  | InvalidFieldError
  | DuplicateIdentifierError
  | InvalidComponentCountError
  | UndefinedParameterError
  | NotEvaluableError

datatype error = TypeError | IndexError | AssertionError | ValueError

subsection \<open>findNodeWithName\<close>

text \<open>
  \<open>nameField node\<close> is \<open>nameField.evaluateString(fieldcache)\<close> with the cache set to
  \<open>node\<close>; \<open>None\<close> is Python's None (no string value). The accumulator \<open>nodeWithName\<close>
  is None or a node object, and a node object is true in a condition.
\<close>

fun findNodeWithName_loop ::
  "(nat \<Rightarrow> string option) \<Rightarrow> string option \<Rightarrow> nat option \<Rightarrow> nat list \<Rightarrow> nat option" where
  "findNodeWithName_loop nameField name nodeWithName [] = nodeWithName"
| "findNodeWithName_loop nameField name nodeWithName (node # rest) =
     (let tempName = nameField node in
      if tempName = name then
        (if nodeWithName \<noteq> None then None
         else findNodeWithName_loop nameField name (Some node) rest)
      else findNodeWithName_loop nameField name nodeWithName rest)"

definition findNodeWithName ::
  "nat list \<Rightarrow> (nat \<Rightarrow> string option) \<Rightarrow> string option \<Rightarrow> nat option" where
  "findNodeWithName nodeset nameField name = findNodeWithName_loop nameField name None nodeset"

subsection \<open>getNodeNameCentres\<close>

text \<open>
  A Python dict is an association list in insertion order with distinct keys:
  \<open>dict_get\<close> is \<open>d.get(k)\<close> and \<open>dict_set\<close> is \<open>d[k] = v\<close>.
\<close>

definition dict_get :: "('k \<times> 'v) list \<Rightarrow> 'k \<Rightarrow> 'v option" where
  "dict_get d k = map_of d k"

fun dict_set :: "('k \<times> 'v) list \<Rightarrow> 'k \<Rightarrow> 'v \<Rightarrow> ('k \<times> 'v) list" where
  "dict_set [] k v = [(k, v)]"
| "dict_set ((k', v') # d) k v = (if k' = k then (k, v) # d else (k', v') # dict_set d k v)"

text \<open>\<open>for c in range(componentsCount): nameCentre[c] += coordinates[c]\<close>, over the
  list of indices; an index outside either list raises IndexError.\<close>

fun add_components :: "nat list \<Rightarrow> real list \<Rightarrow> real list \<Rightarrow> error + real list" where
  "add_components [] nameCentre coordinates = Inr nameCentre"
| "add_components (c # cs) nameCentre coordinates =
     (if c < length nameCentre \<and> c < length coordinates
      then add_components cs (nameCentre[c := nameCentre ! c + coordinates ! c]) coordinates
      else Inl IndexError)"

text \<open>\<open>for c in range(componentsCount): nameCentre[c] *= scale\<close>.\<close>

fun scale_components :: "nat list \<Rightarrow> real \<Rightarrow> real list \<Rightarrow> error + real list" where
  "scale_components [] scale nameCentre = Inr nameCentre"
| "scale_components (c # cs) scale nameCentre =
     (if c < length nameCentre
      then scale_components cs scale (nameCentre[c := nameCentre ! c * scale])
      else Inl IndexError)"

text \<open>
  The first loop. A name record is the tuple \<open>(coordinates, 1)\<close>. For a name that already
  has a record the components are added into the record's list and then
  \<open>nameRecord[1] += 1\<close> assigns to an item of a tuple, which raises TypeError.
  \<open>coordinatesField node\<close> is \<open>coordinatesField.evaluateReal(fieldcache, componentsCount)\<close>.
\<close>

fun nameRecords_loop ::
  "nat \<Rightarrow> (nat \<Rightarrow> string option) \<Rightarrow> (nat \<Rightarrow> result \<times> real list) \<Rightarrow>
   (string \<times> real list \<times> nat) list \<Rightarrow> nat list \<Rightarrow> error + (string \<times> real list \<times> nat) list" where
  "nameRecords_loop componentsCount nameField coordinatesField nameRecords [] = Inr nameRecords"
| "nameRecords_loop componentsCount nameField coordinatesField nameRecords (node # rest) =
     (case nameField node of
        None \<Rightarrow> nameRecords_loop componentsCount nameField coordinatesField nameRecords rest
      | Some name \<Rightarrow>
          (case coordinatesField node of (coordinatesResult, coordinates) \<Rightarrow>
             if name \<noteq> [] \<and> coordinatesResult = RESULT_OK then
               (case dict_get nameRecords name of
                  Some nameRecord \<Rightarrow>
                    (case add_components [0..<componentsCount] (fst nameRecord) coordinates of
                       Inl e \<Rightarrow> Inl e
                     | Inr nameCentre \<Rightarrow> Inl TypeError)
                | None \<Rightarrow>
                    nameRecords_loop componentsCount nameField coordinatesField
                      (dict_set nameRecords name (coordinates, 1)) rest)
             else nameRecords_loop componentsCount nameField coordinatesField nameRecords rest))"

text \<open>The second loop: divide the centre coordinates by the count.\<close>

fun nameCentres_loop ::
  "nat \<Rightarrow> (string \<times> real list \<times> nat) list \<Rightarrow> (string \<times> real list) list \<Rightarrow>
   error + (string \<times> real list) list" where
  "nameCentres_loop componentsCount [] nameCentres = Inr nameCentres"
| "nameCentres_loop componentsCount ((name, nameCentre, nameCount) # rest) nameCentres =
     (if nameCount > 1 then
        (case scale_components [0..<componentsCount] (1 / real nameCount) nameCentre of
           Inl e \<Rightarrow> Inl e
         | Inr scaled \<Rightarrow>
             nameCentres_loop componentsCount rest (dict_set nameCentres name scaled))
      else nameCentres_loop componentsCount rest (dict_set nameCentres name nameCentre))"

definition getNodeNameCentres ::
  "nat list \<Rightarrow> nat \<Rightarrow> (nat \<Rightarrow> result \<times> real list) \<Rightarrow> (nat \<Rightarrow> string option) \<Rightarrow>
   error + (string \<times> real list) list" where
  "getNodeNameCentres nodeset componentsCount coordinatesField nameField =
     (case nameRecords_loop componentsCount nameField coordinatesField [] nodeset of
        Inl e \<Rightarrow> Inl e
      | Inr nameRecords \<Rightarrow> nameCentres_loop componentsCount nameRecords [])"

text \<open>A node takes part in the centres when its name is a non-empty string and its
  coordinates evaluate with RESULT_OK (the condition of the first loop).\<close>

definition node_counts :: "(nat \<Rightarrow> result \<times> real list) \<Rightarrow> (nat \<Rightarrow> string option) \<Rightarrow> nat \<Rightarrow> bool" where
  "node_counts coordinatesField nameField node =
     (case nameField node of
        None \<Rightarrow> False
      | Some name \<Rightarrow> name \<noteq> [] \<and> fst (coordinatesField node) = RESULT_OK)"

text \<open>The example of the specification: nodes 1, 2, 3 named A, A, B with coordinates
  (0,0), (2,0), (5,5); node 4 is named C and its coordinates do not evaluate, node 5 has
  no name and node 6 has the empty name.\<close>

definition example_names :: "nat \<Rightarrow> string option" where
  "example_names node =
     (if node = 1 \<or> node = 2 then Some ''A'' else if node = 3 then Some ''B''
      else if node = 4 then Some ''C'' else if node = 6 then Some [] else None)"

definition example_coordinates :: "nat \<Rightarrow> result \<times> real list" where
  "example_coordinates node =
     (if node = 1 then (RESULT_OK, [0, 0]) else if node = 2 then (RESULT_OK, [2, 0])
      else if node = 3 then (RESULT_OK, [5, 5]) else if node = 4 then (NotEvaluableError, [0, 0])
      else (RESULT_OK, [7, 7]))"

subsection \<open>evaluateNodesetCoordinatesRange, evaluateNodesetMeanCoordinates\<close>

text \<open>
  The aggregate field evaluators of the Zinc library (\<open>createFieldNodesetMinimum\<close>,
  \<open>createFieldNodesetMaximum\<close>, \<open>createFieldNodesetMean\<close> followed by
  \<open>evaluateReal\<close>) are not part of the module. The specification has them make a
  single pass over the nodes in iteration order, accumulating a per-component running
  minimum, maximum or sum, the mean dividing the sum by the count, and fail on an empty
  nodeset with an all-undefined result. \<open>coordinates node\<close> is the value of the
  coordinate field at the node; an undefined component is \<open>None\<close>.
\<close>

text \<open>Modelled from the spec: the single pass of an aggregate evaluator over a nodeset
  that is not empty, a running per-component combination of the nodes' values.\<close>

definition nodesetAggregate ::
  "(real \<Rightarrow> real \<Rightarrow> real) \<Rightarrow> (nat \<Rightarrow> real list) \<Rightarrow> nat list \<Rightarrow> real list" where
  "nodesetAggregate f coordinates nodeset =
     foldl (\<lambda>acc node. map2 f acc (coordinates node)) (coordinates (hd nodeset)) (tl nodeset)"

text \<open>Modelled from the spec: \<open>evaluateReal\<close> of the field that
  \<open>createFieldNodesetMinimum\<close> of the Zinc library makes.\<close>

definition nodesetMinimum_evaluateReal ::
  "(nat \<Rightarrow> real list) \<Rightarrow> nat list \<Rightarrow> nat \<Rightarrow> result \<times> real option list" where
  "nodesetMinimum_evaluateReal coordinates nodeset componentsCount =
     (if nodeset = [] then (NotEvaluableError, replicate componentsCount None)
      else (RESULT_OK, map Some (nodesetAggregate min coordinates nodeset)))"

text \<open>Modelled from the spec: \<open>evaluateReal\<close> of the field that
  \<open>createFieldNodesetMaximum\<close> of the Zinc library makes.\<close>

definition nodesetMaximum_evaluateReal ::
  "(nat \<Rightarrow> real list) \<Rightarrow> nat list \<Rightarrow> nat \<Rightarrow> result \<times> real option list" where
  "nodesetMaximum_evaluateReal coordinates nodeset componentsCount =
     (if nodeset = [] then (NotEvaluableError, replicate componentsCount None)
      else (RESULT_OK, map Some (nodesetAggregate max coordinates nodeset)))"

text \<open>Modelled from the spec: \<open>evaluateReal\<close> of the field that
  \<open>createFieldNodesetMean\<close> of the Zinc library makes.\<close>

definition nodesetMean_evaluateReal ::
  "(nat \<Rightarrow> real list) \<Rightarrow> nat list \<Rightarrow> nat \<Rightarrow> result \<times> real option list" where
  "nodesetMean_evaluateReal coordinates nodeset componentsCount =
     (if nodeset = [] then (NotEvaluableError, replicate componentsCount None)
      else (RESULT_OK,
        map (\<lambda>total. Some (total / real (length nodeset)))
          (nodesetAggregate (+) coordinates nodeset)))"

text \<open>The two functions of the module; a failed \<open>assert result == RESULT_OK\<close> raises
  AssertionError.\<close>

definition evaluateNodesetCoordinatesRange ::
  "(nat \<Rightarrow> real list) \<Rightarrow> nat list \<Rightarrow> nat \<Rightarrow> error + (real option list \<times> real option list)" where
  "evaluateNodesetCoordinatesRange coordinates nodeset componentsCount =
     (case nodesetMinimum_evaluateReal coordinates nodeset componentsCount of (result, minX) \<Rightarrow>
        if result \<noteq> RESULT_OK then Inl AssertionError
        else (case nodesetMaximum_evaluateReal coordinates nodeset componentsCount of
                (result, maxX) \<Rightarrow>
                  if result \<noteq> RESULT_OK then Inl AssertionError else Inr (minX, maxX)))"

definition evaluateNodesetMeanCoordinates ::
  "(nat \<Rightarrow> real list) \<Rightarrow> nat list \<Rightarrow> nat \<Rightarrow> error + real option list" where
  "evaluateNodesetMeanCoordinates coordinates nodeset componentsCount =
     (case nodesetMean_evaluateReal coordinates nodeset componentsCount of
        (result, meanCoordinates) \<Rightarrow>
          if result \<noteq> RESULT_OK then Inl AssertionError
          else if result \<noteq> RESULT_OK then Inl AssertionError
          else Inr meanCoordinates)"

subsection \<open>Python floats with infinities, NaN and the negative zero\<close>

text \<open>
  A Python float is a finite number, the negative zero, an infinity or NaN; \<open>Finite 0\<close>
  is the positive zero. Sums and products of finite values are those of the real numbers
  (rounding, overflow and underflow are not modelled), with the sign of a zero result as
  IEEE 754 has it: a sum is the negative zero only when both terms are, and a zero product
  is negative when the signs of its factors differ. With an infinity or NaN the operations
  follow IEEE 754 too, as Python does: NaN is absorbing, \<open>inf + (-inf)\<close> and \<open>0 * inf\<close>
  are NaN, and the product of an infinity with a value other than a zero is the infinity
  of the product's sign.
\<close>

datatype pyfloat = Finite real | NegZero | PosInf | NegInf | NaN

text \<open>\<open>math.isnan\<close>, \<open>math.isinf\<close> and the sign bit, \<open>math.copysign(1, x) < 0\<close>.\<close>

fun isnan :: "pyfloat \<Rightarrow> bool" where
  "isnan NaN = True"
| "isnan x = False"

fun isinf :: "pyfloat \<Rightarrow> bool" where
  "isinf PosInf = True"
| "isinf NegInf = True"
| "isinf x = False"

fun signbit :: "pyfloat \<Rightarrow> bool" where
  "signbit (Finite a) = (a < 0)"
| "signbit NegZero = True"
| "signbit PosInf = False"
| "signbit NegInf = True"
| "signbit NaN = False"

text \<open>The number that a finite float stands for; both zeros stand for 0.\<close>

fun float_value :: "pyfloat \<Rightarrow> real" where
  "float_value (Finite a) = a"
| "float_value x = 0"

text \<open>\<open>x == 0\<close>: one of the two zeros.\<close>

fun iszero :: "pyfloat \<Rightarrow> bool" where
  "iszero (Finite a) = (a = 0)"
| "iszero NegZero = True"
| "iszero x = False"

instantiation pyfloat :: "{zero, one, plus, times}"
begin

definition zero_pyfloat :: pyfloat where
  "zero_pyfloat = Finite 0"

definition one_pyfloat :: pyfloat where
  "one_pyfloat = Finite 1"

definition plus_pyfloat :: "pyfloat \<Rightarrow> pyfloat \<Rightarrow> pyfloat" where
  "plus_pyfloat x y =
     (if isnan x \<or> isnan y then NaN
      else if isinf x \<and> isinf y then (if x = y then x else NaN)
      else if isinf x then x
      else if isinf y then y
      else if x = NegZero \<and> y = NegZero then NegZero
      else Finite (float_value x + float_value y))"

definition times_pyfloat :: "pyfloat \<Rightarrow> pyfloat \<Rightarrow> pyfloat" where
  "times_pyfloat x y =
     (if isnan x \<or> isnan y then NaN
      else if isinf x \<or> isinf y
           then (if iszero x \<or> iszero y then NaN
                 else if signbit x = signbit y then PosInf else NegInf)
      else if iszero x \<or> iszero y
           then (if signbit x = signbit y then Finite 0 else NegZero)
      else Finite (float_value x * float_value y))"

instance ..

end

text \<open>A finite value other than the negative zero.\<close>

fun ordinary :: "pyfloat \<Rightarrow> bool" where
  "ordinary (Finite a) = True"
| "ordinary x = False"

subsection \<open>Fields, the node store and createNodes\<close>

datatype value_label =
  VALUE | D_DS1 | D_DS2 | D2_DS1DS2 | D_DS3 | D2_DS1DS3 | D2_DS2DS3 | D3_DS1DS2DS3

datatype coordinate_system_type =
  RECTANGULAR_CARTESIAN | CYLINDRICAL_POLAR | SPHERICAL_POLAR | OTHER_COORDINATE_SYSTEM

text \<open>A field as the module sees it: \<open>getNumberOfComponents()\<close>,
  \<open>getCoordinateSystemType()\<close> and \<open>castFiniteElement().isValid()\<close>.\<close>

record field =
  fieldName :: string
  numberOfComponents :: nat
  coordinateSystemType :: coordinate_system_type
  finiteElement :: bool

text \<open>A field cache after \<open>setTime(time)\<close> and \<open>setNode(node)\<close>.\<close>

record fieldcache =
  cacheTime :: real
  cacheNode :: nat

text \<open>
  Modelled from the spec: the node store of the Zinc library is not part of the module.
  The specification gives a node an identifier, unique in its nodeset and iterated in
  ascending order, and a mapping from (field, derivative label, version) to a sequence of
  real components; each (field, derivative) pair has a number of versions. The store keeps
  the identifiers, the version counts by (node, field, label) and the parameters by
  (node, field, label, version).
\<close>

record 'v store =
  nodeIdentifiers :: "nat list"
  versionCount :: "nat \<times> string \<times> value_label \<Rightarrow> nat"
  parameters :: "nat \<times> string \<times> value_label \<times> nat \<Rightarrow> 'v list option"

text \<open>Modelled from the spec: the store with no node.\<close>

definition empty_store :: "'v store" where
  "empty_store = \<lparr>nodeIdentifiers = [], versionCount = (\<lambda>k. 0), parameters = (\<lambda>k. None)\<rparr>"

text \<open>Modelled from the spec: the identifier that \<open>createNode\<close> of the Zinc library
  assigns for hint -1, the smallest unused identifier from 0 on. One of the identifiers 0
  to \<open>length ids\<close> is unused, so the search is bounded.\<close>

definition smallestUnused :: "nat list \<Rightarrow> nat" where
  "smallestUnused ids =
     (case find (\<lambda>i. i \<notin> set ids) [0..<Suc (length ids)] of
        Some i \<Rightarrow> i
      | None \<Rightarrow> Suc (length ids))"

text \<open>Modelled from the spec: \<open>template.defineField(field)\<close> of the Zinc library,
  which is not part of the module. It declares parameters for the field at derivative
  VALUE, version 1, and fails with InvalidFieldError for a field that is not
  finite-element-typed. A node template is the list of its fields.\<close>

definition defineField :: "field list \<Rightarrow> field \<Rightarrow> result \<times> field list" where
  "defineField template f =
     (if finiteElement f then (RESULT_OK, template @ [f]) else (InvalidFieldError, template))"

text \<open>Modelled from the spec: the storage that \<open>createNode\<close> declares at a node for a
  field of the template: one version of VALUE, all values zero.\<close>

definition declareField :: "nat \<Rightarrow> 'v::zero store \<Rightarrow> field \<Rightarrow> 'v store" where
  "declareField node s f =
     s\<lparr>versionCount := (versionCount s)((node, fieldName f, VALUE) := 1),
       parameters := (parameters s)((node, fieldName f, VALUE, 1) :=
                        Some (replicate (numberOfComponents f) 0))\<rparr>"

text \<open>Modelled from the spec: \<open>createNode(idHint, template)\<close> of the Zinc library,
  which is not part of the module. It allocates a node, with the smallest unused
  identifier when the hint is -1 (here \<open>None\<close>), fails with DuplicateIdentifierError
  when the hinted identifier is used, and declares storage for every field of the
  template. Nodes are kept in ascending order of identifier, the order of iteration.\<close>

definition createNode ::
  "nat option \<Rightarrow> field list \<Rightarrow> 'v::zero store \<Rightarrow> (result + nat) \<times> 'v store" where
  "createNode idHint template s =
     (let identifier = (case idHint of None \<Rightarrow> smallestUnused (nodeIdentifiers s) | Some i \<Rightarrow> i)
      in if identifier \<in> set (nodeIdentifiers s) then (Inl DuplicateIdentifierError, s)
         else (Inr identifier,
               foldl (declareField identifier)
                 (s\<lparr>nodeIdentifiers := insort identifier (nodeIdentifiers s)\<rparr>) template))"

text \<open>Modelled from the spec: \<open>assignReal(cache, values)\<close> of the Zinc library, which
  is not part of the module. It writes the VALUE, version 1 parameters of the field at the
  node the cache is bound to.\<close>

definition assignReal ::
  "field \<Rightarrow> fieldcache \<Rightarrow> 'v list \<Rightarrow> 'v store \<Rightarrow> result \<times> 'v store" where
  "assignReal f cache vals s =
     (if length vals \<noteq> numberOfComponents f then (InvalidComponentCountError, s)
      else if parameters s (cacheNode cache, fieldName f, VALUE, 1) = None
      then (NotEvaluableError, s)
      else (RESULT_OK,
            s\<lparr>parameters := (parameters s)((cacheNode cache, fieldName f, VALUE, 1) := Some vals)\<rparr>))"

text \<open>createNodes. The loop asks for identifier -1 at every coordinate; the results of
  \<open>setNode\<close> and \<open>assignReal\<close> are not looked at. Were \<open>createNode\<close> to fail, the
  node would be invalid and nothing would be assigned to it.\<close>

fun createNodes_loop ::
  "field \<Rightarrow> field list \<Rightarrow> 'v::zero list list \<Rightarrow> 'v store \<Rightarrow> 'v store" where
  "createNodes_loop finite_element_field node_template [] s = s"
| "createNodes_loop finite_element_field node_template (node_coordinate # rest) s =
     (case createNode None node_template s of
        (Inr node, s1) \<Rightarrow>
          createNodes_loop finite_element_field node_template rest
            (snd (assignReal finite_element_field \<lparr>cacheTime = 0, cacheNode = node\<rparr>
                    node_coordinate s1))
      | (Inl r, s1) \<Rightarrow> createNodes_loop finite_element_field node_template rest s1)"

definition createNodes ::
  "'v::zero store \<Rightarrow> field \<Rightarrow> 'v list list \<Rightarrow> error + 'v store" where
  "createNodes nodeset finite_element_field node_coordinate_set =
     (if \<not> finiteElement finite_element_field then Inl AssertionError
      else let node_template = snd (defineField [] finite_element_field)
           in Inr (createNodes_loop finite_element_field node_template
                     node_coordinate_set nodeset))"

definition example_field :: field where
  "example_field = \<lparr>fieldName = ''coordinates'', numberOfComponents = 2,
     coordinateSystemType = RECTANGULAR_CARTESIAN, finiteElement = True\<rparr>"

subsection \<open>vectorops\<close>

text \<open>
  \<open>opencmiss.utils.maths.vectorops\<close> is not among the sources. The specification gives
  \<open>matrixvectormult(matrix, vector)\<close> and \<open>add(vectorA, vectorB)\<close>, both requiring
  conformant dimensions and erroring on a mismatch; the error is taken to be ValueError.
\<close>

text \<open>Modelled from the spec: the scalar product of a matrix row and the vector, the
  entry of the matrix-vector product; the products are added from 0 and from the left, as
  Python's \<open>sum\<close> does.\<close>

definition dot :: "'v::{zero,plus,times} list \<Rightarrow> 'v list \<Rightarrow> 'v" where
  "dot u v = foldl (+) 0 (map2 (*) u v)"

text \<open>Modelled from the spec: \<open>vectorops.matrixvectormult(matrix, vector)\<close>, missing
  from the sources.\<close>

definition matrixvectormult ::
  "'v::{zero,plus,times} list list \<Rightarrow> 'v list \<Rightarrow> error + 'v list" where
  "matrixvectormult m v =
     (if list_all (\<lambda>row. length row = length v) m then Inr (map (\<lambda>row. dot row v) m)
      else Inl ValueError)"

text \<open>Modelled from the spec: \<open>vectorops.add(vectorA, vectorB)\<close>, missing from the
  sources.\<close>

definition add :: "'v::plus list \<Rightarrow> 'v list \<Rightarrow> error + 'v list" where
  "add u v = (if length u = length v then Inr (map2 (+) u v) else Inl ValueError)"

subsection \<open>transformCoordinates\<close>

text \<open>
  The calls of transformCoordinates into the Zinc library, over a library state \<open>'s\<close>
  that the module never looks into. Every call that takes the field cache or a node may
  change the state.
  \<^item> \<open>nodesetNodes\<close>: the nodes that \<open>findNodesetByFieldDomainType(DOMAIN_TYPE_NODES)\<close>
    and its iterator yield, in order;
  \<^item> \<open>defineFieldFromNode\<close>: \<open>nodetemplate.defineFieldFromNode(feField, node)\<close>; the
    template is returned as the numbers that
    \<open>nodetemplate.getValueNumberOfVersions(feField, -1, derivative)\<close> then gives;
  \<^item> \<open>getNodeParameters\<close>: \<open>feField.getNodeParameters(cache, -1, derivative, version, ncomp)\<close>;
  \<^item> \<open>setNodeParameters\<close>: \<open>feField.setNodeParameters(cache, -1, derivative, version, values)\<close>.
  \<open>beginChange\<close> and \<open>endChange\<close> only batch change notifications and are left out.
\<close>

record ('s, 'v) zinc =
  nodesetNodes :: "'s \<Rightarrow> nat list"
  defineFieldFromNode :: "field \<Rightarrow> nat \<Rightarrow> 's \<Rightarrow> (value_label \<Rightarrow> int) \<times> 's"
  getNodeParameters ::
    "field \<Rightarrow> fieldcache \<Rightarrow> value_label \<Rightarrow> nat \<Rightarrow> nat \<Rightarrow> 's \<Rightarrow> (result \<times> 'v list) \<times> 's"
  setNodeParameters ::
    "field \<Rightarrow> fieldcache \<Rightarrow> value_label \<Rightarrow> nat \<Rightarrow> 'v list \<Rightarrow> 's \<Rightarrow> result \<times> 's"

text \<open>The derivative labels in the order of the inner \<open>for\<close> loop.\<close>

definition value_labels :: "value_label list" where
  "value_labels =
     [VALUE, D_DS1, D_DS2, D2_DS1DS2, D_DS3, D2_DS1DS3, D2_DS2DS3, D3_DS1DS2DS3]"

text \<open>\<open>for v in range(versions)\<close>: the outcome is the exception raised, or the value of
  \<open>success\<close>, together with the library state reached.\<close>

fun version_loop ::
  "('s, 'v::{zero,plus,times}) zinc \<Rightarrow> field \<Rightarrow> 'v list list \<Rightarrow> 'v list \<Rightarrow> nat \<Rightarrow> fieldcache \<Rightarrow>
   value_label \<Rightarrow>
   nat list \<Rightarrow> bool \<Rightarrow> 's \<Rightarrow> (error + bool) \<times> 's" where
  "version_loop Z feField rotationScale offset ncomp cache derivative [] success s =
     (Inr success, s)"
| "version_loop Z feField rotationScale offset ncomp cache derivative (v # vs) success s =
     (case getNodeParameters Z feField cache derivative (v + 1) ncomp s of
        ((result, vals), s1) \<Rightarrow>
          if result \<noteq> RESULT_OK
          then version_loop Z feField rotationScale offset ncomp cache derivative vs False s1
          else
            (case matrixvectormult rotationScale vals of
               Inl e \<Rightarrow> (Inl e, s1)
             | Inr newValues \<Rightarrow>
                 (case (if derivative = VALUE then add newValues offset else Inr newValues) of
                    Inl e \<Rightarrow> (Inl e, s1)
                  | Inr newValues' \<Rightarrow>
                      (case setNodeParameters Z feField cache derivative (v + 1) newValues' s1 of
                         (result', s2) \<Rightarrow>
                           version_loop Z feField rotationScale offset ncomp cache derivative vs
                             (if result' \<noteq> RESULT_OK then False else success) s2))))"

text \<open>\<open>for derivative in [...]\<close>; \<open>range(versions)\<close> is empty for a number below 1.\<close>

fun derivative_loop ::
  "('s, 'v::{zero,plus,times}) zinc \<Rightarrow> field \<Rightarrow> 'v list list \<Rightarrow> 'v list \<Rightarrow> nat \<Rightarrow> fieldcache \<Rightarrow>
   (value_label \<Rightarrow> int) \<Rightarrow> value_label list \<Rightarrow> bool \<Rightarrow> 's \<Rightarrow> (error + bool) \<times> 's" where
  "derivative_loop Z feField rotationScale offset ncomp cache nodetemplate [] success s =
     (Inr success, s)"
| "derivative_loop Z feField rotationScale offset ncomp cache nodetemplate (derivative # ds)
     success s =
     (let versions = nodetemplate derivative in
      case version_loop Z feField rotationScale offset ncomp cache derivative
             [0..<nat versions] success s of
        (Inl e, s') \<Rightarrow> (Inl e, s')
      | (Inr success', s') \<Rightarrow>
          derivative_loop Z feField rotationScale offset ncomp cache nodetemplate ds success' s')"

text \<open>\<open>while node.isValid()\<close>, over the nodes the iterator yields.\<close>

fun node_loop ::
  "('s, 'v::{zero,plus,times}) zinc \<Rightarrow> field \<Rightarrow> 'v list list \<Rightarrow> 'v list \<Rightarrow> nat \<Rightarrow> real \<Rightarrow> nat list \<Rightarrow>
   bool \<Rightarrow> 's \<Rightarrow>
   (error + bool) \<times> 's" where
  "node_loop Z feField rotationScale offset ncomp time [] success s = (Inr success, s)"
| "node_loop Z feField rotationScale offset ncomp time (node # rest) success s =
     (case defineFieldFromNode Z feField node s of
        (nodetemplate, s1) \<Rightarrow>
          (case derivative_loop Z feField rotationScale offset ncomp
                  \<lparr>cacheTime = time, cacheNode = node\<rparr> nodetemplate value_labels success s1 of
             (Inl e, s') \<Rightarrow> (Inl e, s')
           | (Inr success', s') \<Rightarrow>
               node_loop Z feField rotationScale offset ncomp time rest success' s'))"

definition transformCoordinates ::
  "('s, 'v::{zero,plus,times}) zinc \<Rightarrow> field \<Rightarrow> 'v list list \<Rightarrow> 'v list \<Rightarrow> real \<Rightarrow> 's \<Rightarrow>
   (error + bool) \<times> 's" where
  "transformCoordinates Z field rotationScale offset time s =
     (let ncomp = numberOfComponents field in
      if ncomp \<noteq> 2 \<and> ncomp \<noteq> 3 then (Inr False, s)
      else if length rotationScale \<noteq> ncomp \<or> length offset \<noteq> ncomp then (Inr False, s)
      else if list_ex (\<lambda>matRow. length matRow \<noteq> ncomp) rotationScale then (Inr False, s)
      else if coordinateSystemType field \<noteq> RECTANGULAR_CARTESIAN then (Inr False, s)
      else if \<not> finiteElement field then (Inr False, s)
      else node_loop Z field rotationScale offset ncomp time (nodesetNodes Z s) True s)"

subsection \<open>The calls made into the library\<close>

text \<open>
  To speak about the calls a run makes, a library is wrapped so that its state carries the
  list of the calls made so far, each with its arguments and its result. The wrapped
  library answers every call as the library itself does.
\<close>

datatype 'v call =
    CallDefine nat "int list"
  | CallGet nat value_label nat result "'v list"
  | CallSet nat value_label nat "'v list" result

definition logged :: "('s, 'v) zinc \<Rightarrow> ('s \<times> 'v call list, 'v) zinc" where
  "logged Z =
     \<lparr>nodesetNodes = (\<lambda>(s, calls). nodesetNodes Z s),
      defineFieldFromNode = (\<lambda>f node (s, calls).
        case defineFieldFromNode Z f node s of
          (t, s') \<Rightarrow> (t, (s', calls @ [CallDefine node (map t value_labels)]))),
      getNodeParameters = (\<lambda>f cache d v n (s, calls).
        case getNodeParameters Z f cache d v n s of
          ((r, vals), s') \<Rightarrow> ((r, vals), (s', calls @ [CallGet (cacheNode cache) d v r vals]))),
      setNodeParameters = (\<lambda>f cache d v vals (s, calls).
        case setNodeParameters Z f cache d v vals s of
          (r, s') \<Rightarrow> (r, (s', calls @ [CallSet (cacheNode cache) d v vals r])))\<rparr>"

text \<open>The result of a call: a read or a write succeeded when it returned RESULT_OK.\<close>

fun call_ok :: "'v call \<Rightarrow> bool" where
  "call_ok (CallDefine node versions) = True"
| "call_ok (CallGet node d v r vals) = (r = RESULT_OK)"
| "call_ok (CallSet node d v vals r) = (r = RESULT_OK)"

text \<open>The nodes visited with their version numbers, the parameter sets read and the
  parameter sets written, in the order of the calls.\<close>

fun visits :: "'v call list \<Rightarrow> (nat \<times> int list) list" where
  "visits [] = []"
| "visits (CallDefine node versions # calls) = (node, versions) # visits calls"
| "visits (c # calls) = visits calls"

fun reads :: "'v call list \<Rightarrow> (nat \<times> value_label \<times> nat) list" where
  "reads [] = []"
| "reads (CallGet node d v r vals # calls) = (node, d, v) # reads calls"
| "reads (c # calls) = reads calls"

fun writes :: "'v call list \<Rightarrow> (nat \<times> value_label \<times> nat) list" where
  "writes [] = []"
| "writes (CallSet node d v vals r # calls) = (node, d, v) # writes calls"
| "writes (c # calls) = writes calls"

text \<open>The parameter sets of a visited node that the sweep is to read: for every label
  in order, the versions 1 to the number of versions of the label.\<close>

definition node_slots :: "nat \<times> int list \<Rightarrow> (nat \<times> value_label \<times> nat) list" where
  "node_slots visit =
     concat (map (\<lambda>(d, versions). map (\<lambda>v. (fst visit, d, v + 1)) [0..<nat versions])
               (zip value_labels (snd visit)))"

text \<open>The claim's words for the new parameters: the matrix-vector product, with the
  offset added for the label VALUE only.\<close>

definition transformed ::
  "'v::{zero,plus,times} list list \<Rightarrow> 'v list \<Rightarrow> value_label \<Rightarrow> 'v list \<Rightarrow> 'v list" where
  "transformed rotationScale offset derivative vals =
     (if derivative = VALUE then map2 (+) (map (\<lambda>row. dot row vals) rotationScale) offset
      else map (\<lambda>row. dot row vals) rotationScale)"

text \<open>Every successful read is followed at once by the write of the transformed values
  to the same parameter set, and there is no other write.\<close>

fun writes_follow_reads ::
  "'v::{zero,plus,times} list list \<Rightarrow> 'v list \<Rightarrow> 'v call list \<Rightarrow> bool" where
  "writes_follow_reads rotationScale offset [] = True"
| "writes_follow_reads rotationScale offset (CallDefine node versions # calls) =
     writes_follow_reads rotationScale offset calls"
| "writes_follow_reads rotationScale offset (CallSet node d v vals r # calls) = False"
| "writes_follow_reads rotationScale offset [CallGet node d v r vals] = (r \<noteq> RESULT_OK)"
| "writes_follow_reads rotationScale offset (CallGet node d v r vals # CallSet node' d' v' vals' r' # calls) =
     (r = RESULT_OK \<and> node' = node \<and> d' = d \<and> v' = v
      \<and> vals' = transformed rotationScale offset d vals
      \<and> writes_follow_reads rotationScale offset calls)"
| "writes_follow_reads rotationScale offset (CallGet node d v r vals # c # calls) =
     (r \<noteq> RESULT_OK \<and> writes_follow_reads rotationScale offset (c # calls))"

text \<open>The preconditions that transformCoordinates validates.\<close>

definition passes_validation :: "field \<Rightarrow> 'v list list \<Rightarrow> 'v list \<Rightarrow> bool" where
  "passes_validation f rotationScale offset =
     ((numberOfComponents f = 2 \<or> numberOfComponents f = 3)
      \<and> length rotationScale = numberOfComponents f
      \<and> list_all (\<lambda>matRow. length matRow = numberOfComponents f) rotationScale
      \<and> length offset = numberOfComponents f
      \<and> coordinateSystemType f = RECTANGULAR_CARTESIAN
      \<and> finiteElement f)"

text \<open>The Python binding of \<open>getNodeParameters\<close> returns as many values as it is asked
  for, whatever the status.\<close>

definition returns_requested_count :: "('s, 'v) zinc \<Rightarrow> bool" where
  "returns_requested_count Z =
     (\<forall>f cache d v n s. length (snd (fst (getNodeParameters Z f cache d v n s))) = n)"

subsection \<open>The node store as a library\<close>

text \<open>Modelled from the spec: \<open>defineFieldFromNode\<close> and
  \<open>getValueNumberOfVersions\<close> of the node store, which are not part of the module. The
  template taken from a node has the version counts of the node; the store is not
  changed.\<close>

definition store_defineFieldFromNode ::
  "field \<Rightarrow> nat \<Rightarrow> 'v store \<Rightarrow> (value_label \<Rightarrow> int) \<times> 'v store" where
  "store_defineFieldFromNode f node s = ((\<lambda>d. int (versionCount s (node, fieldName f, d))), s)"

text \<open>Modelled from the spec: \<open>getNodeParameters\<close> of the node store, which is not
  part of the module. It fails with InvalidComponentCountError when the number of values
  asked for is not the field's component count, and with UndefinedParameterError when the
  node does not store the (field, derivative, version) combination. A stored sequence of
  another length than the component count breaks the invariant of the data model and is
  reported as InvalidComponentCountError. A failed read returns zeros; no read changes
  the store.\<close>

definition store_getNodeParameters ::
  "field \<Rightarrow> fieldcache \<Rightarrow> value_label \<Rightarrow> nat \<Rightarrow> nat \<Rightarrow> 'v::zero store \<Rightarrow>
   (result \<times> 'v list) \<times> 'v store" where
  "store_getNodeParameters f cache d v n s =
     (if n \<noteq> numberOfComponents f then ((InvalidComponentCountError, replicate n 0), s)
      else (case parameters s (cacheNode cache, fieldName f, d, v) of
              None \<Rightarrow> ((UndefinedParameterError, replicate n 0), s)
            | Some vals \<Rightarrow>
                if length vals = n then ((RESULT_OK, vals), s)
                else ((InvalidComponentCountError, replicate n 0), s)))"

text \<open>Modelled from the spec: \<open>setNodeParameters\<close> of the node store, which is not
  part of the module. It fails with InvalidComponentCountError when the number of values
  is not the field's component count, and with UndefinedParameterError when the node does
  not store the (field, derivative, version) combination; a failed write changes nothing,
  a successful one replaces the stored values.\<close>

definition store_setNodeParameters ::
  "field \<Rightarrow> fieldcache \<Rightarrow> value_label \<Rightarrow> nat \<Rightarrow> 'v list \<Rightarrow> 'v store \<Rightarrow> result \<times> 'v store" where
  "store_setNodeParameters f cache d v vals s =
     (if length vals \<noteq> numberOfComponents f then (InvalidComponentCountError, s)
      else if parameters s (cacheNode cache, fieldName f, d, v) = None
      then (UndefinedParameterError, s)
      else (RESULT_OK,
            s\<lparr>parameters := (parameters s)((cacheNode cache, fieldName f, d, v) := Some vals)\<rparr>))"

text \<open>The node store as the library that transformCoordinates calls.\<close>

definition store_zinc :: "('v::zero store, 'v) zinc" where
  "store_zinc =
     \<lparr>nodesetNodes = nodeIdentifiers,
      defineFieldFromNode = store_defineFieldFromNode,
      getNodeParameters = store_getNodeParameters,
      setNodeParameters = store_setNodeParameters\<rparr>"

text \<open>A parameter set is stored for a field when the store has it with as many
  components as the field has.\<close>

definition version_stored :: "field \<Rightarrow> 'v store \<Rightarrow> nat \<Rightarrow> value_label \<Rightarrow> nat \<Rightarrow> bool" where
  "version_stored f s node d v =
     (case parameters s (node, fieldName f, d, v) of
        None \<Rightarrow> False
      | Some vals \<Rightarrow> length vals = numberOfComponents f)"

text \<open>Every node of the store has every version of every label, up to its version count,
  stored for the field.\<close>

definition parameters_stored :: "field \<Rightarrow> 'v store \<Rightarrow> bool" where
  "parameters_stored f s =
     list_all (\<lambda>node.
       list_all (\<lambda>d.
         list_all (\<lambda>v. version_stored f s node d (v + 1))
           [0..<versionCount s (node, fieldName f, d)])
         value_labels)
       (nodeIdentifiers s)"

text \<open>The values of a parameter set of a field are finite and none is the negative
  zero, where the store of Python floats has the parameter set.\<close>

definition version_ordinary :: "field \<Rightarrow> pyfloat store \<Rightarrow> nat \<Rightarrow> value_label \<Rightarrow> nat \<Rightarrow> bool" where
  "version_ordinary f s node d v =
     (case parameters s (node, fieldName f, d, v) of
        None \<Rightarrow> True
      | Some vals \<Rightarrow> list_all ordinary vals)"

text \<open>Every node of the store has only finite values other than the negative zero in
  every version of every label, up to its version count, that it stores for the field.\<close>

definition parameters_ordinary :: "field \<Rightarrow> pyfloat store \<Rightarrow> bool" where
  "parameters_ordinary f s =
     list_all (\<lambda>node.
       list_all (\<lambda>d.
         list_all (\<lambda>v. version_ordinary f s node d (v + 1))
           [0..<versionCount s (node, fieldName f, d)])
         value_labels)
       (nodeIdentifiers s)"

text \<open>The identity matrix of the given size.\<close>

definition identity_matrix :: "nat \<Rightarrow> 'v::{zero,one} list list" where
  "identity_matrix n = map (\<lambda>i. map (\<lambda>j. if i = j then 1 else 0) [0..<n]) [0..<n]"

text \<open>The parameter sets whose read returned RESULT_OK, in the order of the calls.\<close>

fun successful_reads :: "'v call list \<Rightarrow> (nat \<times> value_label \<times> nat) list" where
  "successful_reads [] = []"
| "successful_reads (CallGet node d v r vals # calls) =
     (if r = RESULT_OK then (node, d, v) # successful_reads calls else successful_reads calls)"
| "successful_reads (c # calls) = successful_reads calls"

text \<open>Between two states of the wrapped node store: nodes and version counts are the
  same, and a parameter set that differs belongs to the field and is among the writes
  called.\<close>

definition writes_only_field ::
  "field \<Rightarrow> 'v store \<times> 'v call list \<Rightarrow> 'v store \<times> 'v call list \<Rightarrow> bool" where
  "writes_only_field f before after =
     (nodeIdentifiers (fst after) = nodeIdentifiers (fst before)
      \<and> versionCount (fst after) = versionCount (fst before)
      \<and> set (writes (snd before)) \<subseteq> set (writes (snd after))
      \<and> (\<forall>slot. parameters (fst after) slot \<noteq> parameters (fst before) slot \<longrightarrow>
            (\<exists>node d v. slot = (node, fieldName f, d, v) \<and> (node, d, v) \<in> set (writes (snd after)))))"

text \<open>An example store: nodes 1 and 2 with the two-component field \<open>coordinates\<close>,
  each with one version of VALUE, (1,2) and (2,2), and one version of D_DS1, (1,0); node 1
  also has a one-component field \<open>pressure\<close>. In \<open>example_store_gap\<close> node 1 counts
  two versions of D_DS1 and stores only the first.\<close>

definition example_store :: "real store" where
  "example_store =
     \<lparr>nodeIdentifiers = [1, 2],
      versionCount = (\<lambda>(node, name, d).
        if (node = 1 \<or> node = 2) \<and> name = ''coordinates'' \<and> (d = VALUE \<or> d = D_DS1) then 1
        else if node = 1 \<and> name = ''pressure'' \<and> d = VALUE then 1
        else 0),
      parameters = (\<lambda>(node, name, d, v).
        if (node = 1 \<or> node = 2) \<and> name = ''coordinates'' \<and> v = 1 \<and> d = VALUE
        then Some [real node, 2]
        else if (node = 1 \<or> node = 2) \<and> name = ''coordinates'' \<and> v = 1 \<and> d = D_DS1
        then Some [1, 0]
        else if node = 1 \<and> name = ''pressure'' \<and> v = 1 \<and> d = VALUE then Some [9]
        else None)\<rparr>"

definition example_store_gap :: "real store" where
  "example_store_gap =
     example_store\<lparr>versionCount := (versionCount example_store)((1, ''coordinates'', D_DS1) := 2)\<rparr>"

text \<open>Every node has at most the first version of VALUE of the field and no version of
  another label, and stores the version it has: the storage that \<open>createNode\<close> declares
  and \<open>assignReal\<close> writes.\<close>

definition value_only :: "field \<Rightarrow> 'v store \<Rightarrow> bool" where
  "value_only f s =
     (\<forall>node d. versionCount s (node, fieldName f, d) \<le> (if d = VALUE then 1 else 0)
        \<and> (versionCount s (node, fieldName f, d) = 1 \<longrightarrow> version_stored f s node d 1))"

text \<open>Two stores of Python floats that createNodes builds from the empty store for the
  field \<open>coordinates\<close>: the nodes 0 and 1 with the coordinates (1,2) and (0,1) in
  \<open>example_store_finite\<close>, and with (inf,2) and (-0.0,1) in \<open>example_store_special\<close>.\<close>

definition example_store_finite :: "pyfloat store" where
  "example_store_finite =
     createNodes_loop example_field [example_field]
       [[Finite 1, Finite 2], [Finite 0, Finite 1]] empty_store"

definition example_store_special :: "pyfloat store" where
  "example_store_special =
     createNodes_loop example_field [example_field]
       [[PosInf, Finite 2], [NegZero, Finite 1]] empty_store"

section \<open>Properties\<close>

subsection \<open>findNodeWithName\<close>

lemma findNodeWithName_loop_found:
  "findNodeWithName_loop nameField name (Some n) nodes =
     (if filter (\<lambda>m. nameField m = name) nodes = [] then Some n else None)"
  by (induction nodes) auto

lemma findNodeWithName_loop_none:
  "findNodeWithName_loop nameField name None nodes =
     (case filter (\<lambda>m. nameField m = name) nodes of [n] \<Rightarrow> Some n | _ \<Rightarrow> None)"
  by (induction nodes) (auto simp: findNodeWithName_loop_found split: list.splits)

text \<open>
  C5. findNodeWithName returns the node whose name equals the given name when exactly one
  node of the nodeset has it, and None both when no node has it and when two or more
  nodes have it.
\<close>

theorem findNodeWithName_unique:
  "findNodeWithName nodeset nameField name =
     (case filter (\<lambda>node. nameField node = name) nodeset of
        [] \<Rightarrow> None
      | [node] \<Rightarrow> Some node
      | _ # _ # _ \<Rightarrow> None)"
  by (simp add: findNodeWithName_def findNodeWithName_loop_none split: list.splits)

subsection \<open>getNodeNameCentres\<close>

lemma dict_set_keys: "fst ` set (dict_set d k v) = insert k (fst ` set d)"
  by (induction d k v rule: dict_set.induct) auto

lemma nameRecords_loop_filter:
  "nameRecords_loop cc nf cf recs (filter (node_counts cf nf) nodes) =
   nameRecords_loop cc nf cf recs nodes"
  by (induction nodes arbitrary: recs)
     (auto simp: node_counts_def split: option.splits prod.splits sum.splits)

lemma nameRecords_loop_keys:
  "nameRecords_loop cc nf cf recs nodes = Inr recs' \<Longrightarrow>
   fst ` set recs' \<subseteq>
     fst ` set recs \<union> {name. \<exists>n \<in> set nodes. nf n = Some name \<and> node_counts cf nf n}"
proof (induction nodes arbitrary: recs)
  case Nil
  then show ?case by simp
next
  case (Cons n ns)
  show ?case
  proof (cases "node_counts cf nf n")
    case False
    with Cons.prems have "nameRecords_loop cc nf cf recs ns = Inr recs'"
      by (auto simp: node_counts_def split: option.splits prod.splits if_splits)
    from Cons.IH[OF this] show ?thesis by auto
  next
    case True
    then obtain name where nm: "nf n = Some name" "name \<noteq> []" "fst (cf n) = RESULT_OK"
      by (auto simp: node_counts_def split: option.splits)
    with Cons.prems
    have "nameRecords_loop cc nf cf (dict_set recs name (snd (cf n), 1)) ns = Inr recs'"
      by (auto split: option.splits prod.splits if_splits sum.splits)
    from Cons.IH[OF this] True nm show ?thesis by (auto simp: dict_set_keys)
  qed
qed

lemma nameCentres_loop_keys:
  "nameCentres_loop cc recs acc = Inr res \<Longrightarrow> fst ` set res = fst ` set acc \<union> fst ` set recs"
  by (induction cc recs acc rule: nameCentres_loop.induct)
     (auto simp: dict_set_keys split: if_splits sum.splits)

lemma getNodeNameCentres_keys:
  assumes "getNodeNameCentres nodeset cc cf nf = Inr nameCentres"
  shows "fst ` set nameCentres \<subseteq>
           {name. \<exists>n \<in> set nodeset. nf n = Some name \<and> node_counts cf nf n}"
proof -
  from assms obtain recs where
    r: "nameRecords_loop cc nf cf [] nodeset = Inr recs" and
    c: "nameCentres_loop cc recs [] = Inr nameCentres"
    by (auto simp: getNodeNameCentres_def split: sum.splits)
  from nameCentres_loop_keys[OF c] nameRecords_loop_keys[OF r] show ?thesis by auto
qed

text \<open>
  C6 (the code departs from the claim). On the example of the specification, nodes named
  A, A, B with coordinates (0,0), (2,0), (5,5), getNodeNameCentres does not return
  the dict of A to (1,0) and B to (5,5): at the second node named A the statement
  \<open>nameRecord[1] += 1\<close> assigns into the tuple \<open>(coordinates, 1)\<close> and raises
  TypeError.
\<close>

theorem getNodeNameCentres_example_raises:
  "getNodeNameCentres [1, 2, 3] 2 example_coordinates example_names = Inl TypeError"
  by (simp add: getNodeNameCentres_def example_names_def example_coordinates_def
        dict_get_def upt_rec)

text \<open>The same holds of every nodeset in which two nodes that take part in the centres
  have the same name: the function raises, so no mean of two nodes is ever returned.\<close>

lemma nameRecords_loop_append:
  "nameRecords_loop cc nf cf recs (xs @ ys) =
     (case nameRecords_loop cc nf cf recs xs of
        Inl e \<Rightarrow> Inl e
      | Inr recs' \<Rightarrow> nameRecords_loop cc nf cf recs' ys)"
  by (induction xs arbitrary: recs) (auto split: option.splits prod.splits sum.splits)

lemma nameRecords_loop_keys_kept:
  "nameRecords_loop cc nf cf recs nodes = Inr recs' \<Longrightarrow> fst ` set recs \<subseteq> fst ` set recs'"
proof (induction nodes arbitrary: recs)
  case Nil
  then show ?case by simp
next
  case (Cons n ns)
  show ?case
  proof (cases "node_counts cf nf n")
    case False
    with Cons.prems have "nameRecords_loop cc nf cf recs ns = Inr recs'"
      by (auto simp: node_counts_def split: option.splits prod.splits if_splits)
    from Cons.IH[OF this] show ?thesis .
  next
    case True
    then obtain name where nm: "nf n = Some name" "name \<noteq> []" "fst (cf n) = RESULT_OK"
      by (auto simp: node_counts_def split: option.splits)
    with Cons.prems
    have "nameRecords_loop cc nf cf (dict_set recs name (snd (cf n), 1)) ns = Inr recs'"
      by (auto split: option.splits prod.splits if_splits sum.splits)
    from Cons.IH[OF this] show ?thesis by (auto simp: dict_set_keys)
  qed
qed

lemma nameRecords_loop_known_name:
  assumes "node_counts cf nf n" "nf n = Some name" "name \<in> fst ` set recs"
  shows "\<exists>e. nameRecords_loop cc nf cf recs (n # ns) = Inl e"
proof -
  from assms(3) have "dict_get recs name \<noteq> None"
    by (simp add: dict_get_def map_of_eq_None_iff)
  then obtain r where "dict_get recs name = Some r" by blast
  with assms(1,2) show ?thesis
    by (auto simp: node_counts_def split: prod.splits sum.splits)
qed

lemma nameRecords_loop_counted_node:
  assumes "node_counts cf nf n" "nf n = Some name"
    and "nameRecords_loop cc nf cf recs (n # ns) = Inr recs'"
  shows "name \<in> fst ` set recs'"
proof -
  from assms have "nameRecords_loop cc nf cf (dict_set recs name (snd (cf n), 1)) ns = Inr recs'"
    by (auto simp: node_counts_def split: option.splits prod.splits if_splits sum.splits)
  from nameRecords_loop_keys_kept[OF this] show ?thesis by (auto simp: dict_set_keys)
qed

lemma getNodeNameCentres_same_name_raises:
  assumes c1: "node_counts coordinatesField nameField node1"
    and c2: "node_counts coordinatesField nameField node2"
    and same: "nameField node1 = nameField node2"
  shows "\<exists>e. getNodeNameCentres (before @ node1 # between @ node2 # rest) componentsCount
               coordinatesField nameField = Inl e"
proof -
  let ?loop = "nameRecords_loop componentsCount nameField coordinatesField"
  from c1 obtain name where nm: "nameField node1 = Some name"
    by (auto simp: node_counts_def split: option.splits)
  have split1: "?loop [] (before @ node1 # between @ node2 # rest) =
      (case ?loop [] (before @ node1 # between) of
         Inl e \<Rightarrow> Inl e | Inr r \<Rightarrow> ?loop r (node2 # rest))"
    using nameRecords_loop_append[of componentsCount nameField coordinatesField "[]"
            "before @ node1 # between" "node2 # rest"]
    by (simp only: append_assoc append_Cons)
  have split2: "?loop [] (before @ node1 # between) =
      (case ?loop [] before of Inl e \<Rightarrow> Inl e | Inr r \<Rightarrow> ?loop r (node1 # between))"
    by (rule nameRecords_loop_append)
  have split3: "?loop r (node1 # between) =
      (case ?loop r [node1] of Inl e \<Rightarrow> Inl e | Inr r' \<Rightarrow> ?loop r' between)" for r
    using nameRecords_loop_append[of componentsCount nameField coordinatesField r
            "[node1]" between]
    by (simp only: append_Cons append_Nil)
  have "\<exists>e. ?loop [] (before @ node1 # between @ node2 # rest) = Inl e"
  proof (cases "?loop [] (before @ node1 # between)")
    case (Inl e)
    with split1 show ?thesis by simp
  next
    case r3: (Inr r3)
    with split2 obtain r1 where r1: "?loop [] before = Inr r1"
      and r13: "?loop r1 (node1 # between) = Inr r3"
      by (cases "?loop [] before") simp_all
    from r13 split3[of r1] obtain r2 where r2: "?loop r1 [node1] = Inr r2"
      and r23: "?loop r2 between = Inr r3"
      by (cases "?loop r1 [node1]") simp_all
    from nameRecords_loop_counted_node[OF c1 nm r2] have "name \<in> fst ` set r2" .
    with nameRecords_loop_keys_kept[OF r23] have "name \<in> fst ` set r3" by auto
    from nameRecords_loop_known_name[OF c2 _ this, of componentsCount rest] nm same
    obtain e where "?loop r3 (node2 # rest) = Inl e" by auto
    with r3 split1 show ?thesis by simp
  qed
  then show ?thesis by (auto simp: getNodeNameCentres_def)
qed

text \<open>
  C10. getNodeNameCentres gives the same outcome as on the nodeset without the nodes
  whose name is undefined or empty or whose coordinates do not evaluate with RESULT_OK
  (they add to no sum and to no count and raise nothing), and a name that only such
  nodes carry is not a key of the returned dict.
\<close>

theorem getNodeNameCentres_excludes:
  "getNodeNameCentres nodeset componentsCount coordinatesField nameField =
     getNodeNameCentres (filter (node_counts coordinatesField nameField) nodeset)
       componentsCount coordinatesField nameField
   \<and> (getNodeNameCentres nodeset componentsCount coordinatesField nameField = Inr nameCentres
        \<longrightarrow> (\<forall>node \<in> set nodeset. nameField node = Some name
               \<longrightarrow> \<not> node_counts coordinatesField nameField node)
        \<longrightarrow> dict_get nameCentres name = None)"
proof (intro conjI impI)
  show "getNodeNameCentres nodeset componentsCount coordinatesField nameField =
     getNodeNameCentres (filter (node_counts coordinatesField nameField) nodeset)
       componentsCount coordinatesField nameField"
    by (simp add: getNodeNameCentres_def nameRecords_loop_filter)
next
  assume r: "getNodeNameCentres nodeset componentsCount coordinatesField nameField = Inr nameCentres"
    and n: "\<forall>node \<in> set nodeset. nameField node = Some name
               \<longrightarrow> \<not> node_counts coordinatesField nameField node"
  from getNodeNameCentres_keys[OF r] n have "name \<notin> fst ` set nameCentres" by auto
  then show "dict_get nameCentres name = None"
    by (simp add: dict_get_def map_of_eq_None_iff)
qed

theorem getNodeNameCentres_excludes_witness:
  "getNodeNameCentres [1, 4, 5, 3, 6] 2 example_coordinates example_names =
     getNodeNameCentres [1, 3] 2 example_coordinates example_names
   \<and> getNodeNameCentres [1, 4, 5, 3, 6] 2 example_coordinates example_names =
       Inr [(''A'', [0, 0]), (''B'', [5, 5])]
   \<and> dict_get [(''A'', [0, 0]), (''B'', [5, 5 :: real])] ''C'' = None"
proof -
  have r: "getNodeNameCentres [1, 4, 5, 3, 6] 2 example_coordinates example_names =
       Inr [(''A'', [0, 0]), (''B'', [5, 5])]"
    by (simp add: getNodeNameCentres_def example_names_def example_coordinates_def
        dict_get_def upt_rec)
  have f: "filter (node_counts example_coordinates example_names) [1, 4, 5, 3, 6] = [1, 3]"
    by (simp add: node_counts_def example_names_def example_coordinates_def)
  have n: "\<forall>node \<in> set [1, 4, 5, 3, 6 :: nat]. example_names node = Some ''C''
               \<longrightarrow> \<not> node_counts example_coordinates example_names node"
    by (simp add: node_counts_def example_names_def example_coordinates_def)
  from getNodeNameCentres_excludes
         [of "[1, 4, 5, 3, 6]" 2 example_coordinates example_names
             "[(''A'', [0, 0]), (''B'', [5, 5])]" "''C''"]
       r f n
  show ?thesis by simp
qed

subsection \<open>evaluateNodesetCoordinatesRange, evaluateNodesetMeanCoordinates\<close>

text \<open>
  C4 as stated fails: on an empty nodeset the functions of the module do not return an
  all-undefined result.
\<close>

theorem evaluateNodeset_empty_counterexample:
  "evaluateNodesetCoordinatesRange (\<lambda>node. [0, 0]) [] 2 \<noteq> Inr ([None, None], [None, None])
   \<and> evaluateNodesetMeanCoordinates (\<lambda>node. [0, 0]) [] 2 \<noteq> Inr [None, None]"
  by (simp add: evaluateNodesetCoordinatesRange_def evaluateNodesetMeanCoordinates_def
        nodesetMinimum_evaluateReal_def nodesetMean_evaluateReal_def)

text \<open>
  C4, amended. Over an empty nodeset the aggregate evaluators fail with an all-undefined
  result and a status other than RESULT_OK; evaluateNodesetCoordinatesRange and
  evaluateNodesetMeanCoordinates then raise AssertionError at their
  \<open>assert result == RESULT_OK\<close>.
\<close>

theorem evaluateNodeset_empty_raises:
  "nodesetMinimum_evaluateReal coordinates [] componentsCount =
     (NotEvaluableError, replicate componentsCount None)
   \<and> nodesetMaximum_evaluateReal coordinates [] componentsCount =
     (NotEvaluableError, replicate componentsCount None)
   \<and> nodesetMean_evaluateReal coordinates [] componentsCount =
     (NotEvaluableError, replicate componentsCount None)
   \<and> evaluateNodesetCoordinatesRange coordinates [] componentsCount = Inl AssertionError
   \<and> evaluateNodesetMeanCoordinates coordinates [] componentsCount = Inl AssertionError"
  by (simp add: evaluateNodesetCoordinatesRange_def evaluateNodesetMeanCoordinates_def
        nodesetMinimum_evaluateReal_def nodesetMaximum_evaluateReal_def
        nodesetMean_evaluateReal_def)

lemma evaluateNodesetCoordinatesRange_example:
  "evaluateNodesetCoordinatesRange (\<lambda>node. if node = 1 then [0, 0] else [3, 4]) [1, 2] 2 =
     Inr ([Some 0, Some 0], [Some 3, Some 4])"
  by (simp add: evaluateNodesetCoordinatesRange_def nodesetMinimum_evaluateReal_def
        nodesetMaximum_evaluateReal_def nodesetAggregate_def)


subsection \<open>createNodes\<close>

lemma unused_exists: "\<exists>i \<le> length ids. i \<notin> set ids"
proof (rule ccontr)
  assume "\<not> ?thesis"
  then have "{..length ids} \<subseteq> set ids" by auto
  then have "card {..length ids} \<le> card (set ids)" by (intro card_mono) auto
  moreover have "card (set ids) \<le> length ids" by (rule card_length)
  ultimately show False by simp
qed

lemma smallestUnused_least: "smallestUnused ids = (LEAST i. i \<notin> set ids)"
proof -
  let ?P = "\<lambda>i. i \<notin> set ids"
  let ?L = "LEAST i. ?P i"
  from unused_exists obtain i0 where i0: "i0 \<le> length ids" "?P i0" by blast
  have PL: "?P ?L" using i0(2) by (rule LeastI)
  have le: "?L \<le> i0" using i0(2) by (rule Least_le)
  have below: "\<And>j. j < ?L \<Longrightarrow> \<not> ?P j" using not_less_Least by blast
  have "find ?P [0..<Suc (length ids)] = Some ?L"
    unfolding find_Some_iff
  proof (intro exI[of _ ?L] conjI allI impI)
    show "?L < length [0..<Suc (length ids)]" using le i0(1) by simp
    then show "[0..<Suc (length ids)] ! ?L \<notin> set ids" using PL le i0(1)
      by (metis add_0 length_upt minus_nat.diff_0 nth_upt)
    show "?L = [0..<Suc (length ids)] ! ?L" using le i0(1)
      by (metis add_0 le_imp_less_Suc le_trans nth_upt)
    fix j assume "j < ?L"
    then show "\<not> [0..<Suc (length ids)] ! j \<notin> set ids"
      using below[of j] le i0(1)
      by (metis add_0 le_imp_less_Suc le_trans less_imp_le_nat nth_upt)
  qed
  then show ?thesis by (simp add: smallestUnused_def)
qed

lemma smallestUnused_upt: "smallestUnused [0..<k] = k"
proof -
  have "(LEAST i. i \<notin> set [0..<k]) = k"
    by (rule Least_equality) auto
  then show ?thesis by (simp add: smallestUnused_least)
qed

lemma insort_upt: "insort k [0..<k] = [0..<Suc k]"
  by (simp add: sorted_insort_is_snoc)

lemma declareField_ids: "nodeIdentifiers (foldl (declareField i) s t) = nodeIdentifiers s"
  by (induction t arbitrary: s) (auto simp: declareField_def)

lemma assignReal_ids: "nodeIdentifiers (snd (assignReal f c v s)) = nodeIdentifiers s"
  by (simp add: assignReal_def)

lemma createNode_auto:
  "fst (createNode None template s) = Inr (LEAST i. i \<notin> set (nodeIdentifiers s))
   \<and> nodeIdentifiers (snd (createNode None template s)) =
       insort (LEAST i. i \<notin> set (nodeIdentifiers s)) (nodeIdentifiers s)"
proof -
  have "(LEAST i. i \<notin> set (nodeIdentifiers s)) \<notin> set (nodeIdentifiers s)"
    using unused_exists[of "nodeIdentifiers s"] by (metis (mono_tags, lifting) LeastI)
  then show ?thesis
    by (simp add: createNode_def smallestUnused_least Let_def declareField_ids)
qed

lemma createNodes_loop_ids:
  "nodeIdentifiers s = [0..<k] \<Longrightarrow>
   nodeIdentifiers (createNodes_loop f t coords s) = [0..<k + length coords]"
proof (induction coords arbitrary: s k)
  case Nil
  then show ?case by simp
next
  case (Cons c cs)
  have L: "(LEAST i. i \<notin> set (nodeIdentifiers s)) = k"
    using smallestUnused_upt[of k] Cons.prems by (simp only: smallestUnused_least)
  obtain r s1 where c1: "createNode None t s = (r, s1)" by (cases "createNode None t s")
  with createNode_auto[of t s] L have r: "r = Inr k" and s1: "nodeIdentifiers s1 = [0..<Suc k]"
    using Cons.prems by (auto simp: insort_upt)
  have "nodeIdentifiers (snd (assignReal f \<lparr>cacheTime = 0, cacheNode = k\<rparr> c s1)) = [0..<Suc k]"
    using s1 by (simp add: assignReal_ids)
  from Cons.IH[OF this] c1 r show ?case by simp
qed

text \<open>
  C8. With the node store modelled from the specification, createNodes on a store that
  starts empty gives the N nodes the identifiers 0 to N-1, and every node created with
  identifier hint -1 receives the smallest identifier not yet used.
\<close>

theorem createNodes_identifiers:
  "finiteElement finite_element_field \<Longrightarrow>
   (\<exists>s. createNodes empty_store finite_element_field node_coordinate_set = Inr s
        \<and> nodeIdentifiers s = [0..<length node_coordinate_set]
        \<and> distinct (nodeIdentifiers s))
   \<and> (\<forall>template s. fst (createNode None template s) =
          Inr (LEAST i. i \<notin> set (nodeIdentifiers s)))"
proof (intro conjI allI)
  assume fe: "finiteElement finite_element_field"
  show "\<exists>s. createNodes empty_store finite_element_field node_coordinate_set = Inr s
        \<and> nodeIdentifiers s = [0..<length node_coordinate_set]
        \<and> distinct (nodeIdentifiers s)"
    using fe createNodes_loop_ids[of empty_store 0 finite_element_field
                "snd (defineField [] finite_element_field)" node_coordinate_set]
    by (simp add: createNodes_def empty_store_def)
next
  fix template s
  show "fst (createNode None template s) = Inr (LEAST i. i \<notin> set (nodeIdentifiers s))"
    using createNode_auto[of template s] by simp
qed

theorem createNodes_identifiers_witness:
  "finiteElement example_field
   \<and> (\<exists>s. createNodes empty_store example_field [[0, 0], [1, 1], [2, 2]] = Inr s
          \<and> nodeIdentifiers s = [0, 1, 2])"
  using createNodes_identifiers[of example_field "[[0, 0], [1, 1], [2, 2]]"]
  by (auto simp: example_field_def upt_rec numeral_2_eq_2)


subsection \<open>transformCoordinates: the calls of a run\<close>

lemma logged_nodesetNodes: "nodesetNodes (logged Z) (s, calls) = nodesetNodes Z s"
  by (simp add: logged_def)

lemma logged_defineFieldFromNode:
  "defineFieldFromNode (logged Z) f node (s, calls) =
     (fst (defineFieldFromNode Z f node s),
      (snd (defineFieldFromNode Z f node s),
       calls @ [CallDefine node (map (fst (defineFieldFromNode Z f node s)) value_labels)]))"
  by (simp add: logged_def split: prod.splits)

lemma logged_getNodeParameters:
  "getNodeParameters (logged Z) f cache d v n (s, calls) =
     (fst (getNodeParameters Z f cache d v n s),
      (snd (getNodeParameters Z f cache d v n s),
       calls @ [CallGet (cacheNode cache) d v (fst (fst (getNodeParameters Z f cache d v n s)))
                  (snd (fst (getNodeParameters Z f cache d v n s)))]))"
  by (simp add: logged_def split: prod.splits)

lemma logged_setNodeParameters:
  "setNodeParameters (logged Z) f cache d v vals (s, calls) =
     (fst (setNodeParameters Z f cache d v vals s),
      (snd (setNodeParameters Z f cache d v vals s),
       calls @ [CallSet (cacheNode cache) d v vals (fst (setNodeParameters Z f cache d v vals s))]))"
  by (simp add: logged_def split: prod.splits)

lemma wfr_get_failed:
  "r \<noteq> RESULT_OK \<Longrightarrow>
   writes_follow_reads M off (CallGet node d v r vals # calls) = writes_follow_reads M off calls"
  by (cases "(M, off, calls)" rule: writes_follow_reads.cases) auto

lemma wfr_get_ok:
  "writes_follow_reads M off (CallGet node d v RESULT_OK vals # calls) =
     (\<exists>r rest. calls = CallSet node d v (transformed M off d vals) r # rest
               \<and> writes_follow_reads M off rest)"
  by (cases "(M, off, calls)" rule: writes_follow_reads.cases) auto

lemma wfr_append:
  "writes_follow_reads M off xs \<Longrightarrow> writes_follow_reads M off ys \<Longrightarrow>
   writes_follow_reads M off (xs @ ys)"
  by (induction M off xs rule: writes_follow_reads.induct) (auto simp: wfr_get_failed)

lemma visits_append: "visits (xs @ ys) = visits xs @ visits ys"
  by (induction xs rule: visits.induct) auto

lemma reads_append: "reads (xs @ ys) = reads xs @ reads ys"
  by (induction xs rule: reads.induct) auto

lemma writes_append: "writes (xs @ ys) = writes xs @ writes ys"
  by (induction xs rule: writes.induct) auto


lemma new_values:
  assumes "passes_validation f M off" "length vals = numberOfComponents f"
  shows "matrixvectormult M vals = Inr (map (\<lambda>row. dot row vals) M)"
    and "(if d = VALUE then add (map (\<lambda>row. dot row vals) M) off
          else Inr (map (\<lambda>row. dot row vals) M)) = Inr (transformed M off d vals)"
  using assms by (auto simp: passes_validation_def matrixvectormult_def add_def transformed_def)

lemma version_loop_failed:
  "fst (fst (getNodeParameters Z f cache d (Suc v) n s)) \<noteq> RESULT_OK \<Longrightarrow>
   version_loop Z f M off n cache d (v # vs) success s =
     version_loop Z f M off n cache d vs False (snd (getNodeParameters Z f cache d (Suc v) n s))"
  by (simp add: case_prod_beta)

lemma version_loop_ok:
  assumes "fst (fst (getNodeParameters Z f cache d (Suc v) n s)) = RESULT_OK"
    and "matrixvectormult M (snd (fst (getNodeParameters Z f cache d (Suc v) n s))) = Inr nv"
    and "(if d = VALUE then add nv off else Inr nv) = Inr nv'"
  shows "version_loop Z f M off n cache d (v # vs) success s =
     version_loop Z f M off n cache d vs
       (if fst (setNodeParameters Z f cache d (Suc v) nv'
                  (snd (getNodeParameters Z f cache d (Suc v) n s))) \<noteq> RESULT_OK
        then False else success)
       (snd (setNodeParameters Z f cache d (Suc v) nv'
               (snd (getNodeParameters Z f cache d (Suc v) n s))))"
  using assms by (cases "d = VALUE") (simp_all add: case_prod_beta)

lemma version_loop_logged:
  assumes conf: "returns_requested_count Z" and val: "passes_validation f M off"
  shows "\<exists>b s' seg.
      version_loop (logged Z) f M off (numberOfComponents f) cache d vs success (s, calls) =
        (Inr b, (s', calls @ seg))
    \<and> version_loop Z f M off (numberOfComponents f) cache d vs success s = (Inr b, s')
    \<and> writes_follow_reads M off seg
    \<and> (b \<longleftrightarrow> success \<and> list_all call_ok seg)
    \<and> visits seg = []
    \<and> reads seg = map (\<lambda>v. (cacheNode cache, d, Suc v)) vs"
proof (induction vs arbitrary: success s calls)
  case Nil
  show ?case by simp
next
  case (Cons v vs)
  let ?n = "numberOfComponents f"
  let ?g = "getNodeParameters Z f cache d (Suc v) ?n s"
  let ?r = "fst (fst ?g)" and ?vals = "snd (fst ?g)" and ?s1 = "snd ?g"
  let ?get = "CallGet (cacheNode cache) d (Suc v) ?r ?vals"
  have len: "length ?vals = ?n"
    using conf by (simp add: returns_requested_count_def)
  have lg: "fst (getNodeParameters (logged Z) f cache d (Suc v) ?n (s, calls)) = fst ?g"
      "snd (getNodeParameters (logged Z) f cache d (Suc v) ?n (s, calls)) = (?s1, calls @ [?get])"
    by (simp_all add: logged_getNodeParameters)
  show ?case
  proof (cases "?r = RESULT_OK")
    case False
    from Cons.IH[of False ?s1 "calls @ [?get]"]
    obtain b s' seg where
      run: "version_loop (logged Z) f M off ?n cache d vs False (?s1, calls @ [?get]) =
              (Inr b, (s', (calls @ [?get]) @ seg))"
      and plain: "version_loop Z f M off ?n cache d vs False ?s1 = (Inr b, s')"
      and wfr: "writes_follow_reads M off seg"
      and ok: "b \<longleftrightarrow> False \<and> list_all call_ok seg"
      and vis: "visits seg = []"
      and rd: "reads seg = map (\<lambda>v. (cacheNode cache, d, Suc v)) vs"
      by blast
    have 1: "version_loop (logged Z) f M off ?n cache d (v # vs) success (s, calls) =
               (Inr b, (s', calls @ (?get # seg)))"
      using False run by (simp add: version_loop_failed lg del: version_loop.simps)
    have 2: "version_loop Z f M off ?n cache d (v # vs) success s = (Inr b, s')"
      using False plain by (simp add: version_loop_failed del: version_loop.simps)
    have 3: "writes_follow_reads M off (?get # seg)"
      using False wfr by (simp add: wfr_get_failed)
    have 4: "b \<longleftrightarrow> success \<and> list_all call_ok (?get # seg)"
      using False ok by simp
    have 5: "visits (?get # seg) = []" using vis by simp
    have 6: "reads (?get # seg) = map (\<lambda>v. (cacheNode cache, d, Suc v)) (v # vs)"
      using rd by simp
    from 1 2 3 4 5 6 show ?thesis by blast
  next
    case True
    let ?nv = "transformed M off d ?vals"
    let ?st = "setNodeParameters Z f cache d (Suc v) ?nv ?s1"
    let ?r' = "fst ?st" and ?s2 = "snd ?st"
    let ?set = "CallSet (cacheNode cache) d (Suc v) ?nv ?r'"
    let ?succ = "if ?r' \<noteq> RESULT_OK then False else success"
    note nv = new_values[OF val len]
    from Cons.IH[of ?succ ?s2 "calls @ [?get, ?set]"]
    obtain b s' seg where
      run: "version_loop (logged Z) f M off ?n cache d vs ?succ (?s2, calls @ [?get, ?set]) =
              (Inr b, (s', (calls @ [?get, ?set]) @ seg))"
      and plain: "version_loop Z f M off ?n cache d vs ?succ ?s2 = (Inr b, s')"
      and wfr: "writes_follow_reads M off seg"
      and ok: "b \<longleftrightarrow> ?succ \<and> list_all call_ok seg"
      and vis: "visits seg = []"
      and rd: "reads seg = map (\<lambda>v. (cacheNode cache, d, Suc v)) vs"
      by blast
    have "version_loop (logged Z) f M off ?n cache d (v # vs) success (s, calls) =
            version_loop (logged Z) f M off ?n cache d vs ?succ (?s2, calls @ [?get, ?set])"
      using True nv
      by (subst version_loop_ok[where nv = "map (\<lambda>row. dot row ?vals) M" and nv' = ?nv])
         (simp_all add: lg logged_setNodeParameters del: version_loop.simps)
    with run have 1: "version_loop (logged Z) f M off ?n cache d (v # vs) success (s, calls) =
               (Inr b, (s', calls @ (?get # ?set # seg)))"
      by simp
    have "version_loop Z f M off ?n cache d (v # vs) success s =
            version_loop Z f M off ?n cache d vs ?succ ?s2"
      by (rule version_loop_ok[OF True nv])
    with plain have 2: "version_loop Z f M off ?n cache d (v # vs) success s = (Inr b, s')"
      by simp
    have 3: "writes_follow_reads M off (?get # ?set # seg)"
      using True wfr by simp
    have 4: "b \<longleftrightarrow> success \<and> list_all call_ok (?get # ?set # seg)"
      using True ok by auto
    have 5: "visits (?get # ?set # seg) = []" using vis by simp
    have 6: "reads (?get # ?set # seg) = map (\<lambda>v. (cacheNode cache, d, Suc v)) (v # vs)"
      using rd by simp
    from 1 2 3 4 5 6 show ?thesis by blast
  qed
qed


lemma derivative_loop_logged:
  assumes conf: "returns_requested_count Z" and val: "passes_validation f M off"
  shows "\<exists>b s' seg.
      derivative_loop (logged Z) f M off (numberOfComponents f) cache t ds success (s, calls) =
        (Inr b, (s', calls @ seg))
    \<and> derivative_loop Z f M off (numberOfComponents f) cache t ds success s = (Inr b, s')
    \<and> writes_follow_reads M off seg
    \<and> (b \<longleftrightarrow> success \<and> list_all call_ok seg)
    \<and> visits seg = []
    \<and> reads seg =
        concat (map (\<lambda>d. map (\<lambda>v. (cacheNode cache, d, Suc v)) [0..<nat (t d)]) ds)"
proof (induction ds arbitrary: success s calls)
  case Nil
  show ?case by simp
next
  case (Cons d ds)
  let ?n = "numberOfComponents f"
  from version_loop_logged[OF conf val, of cache d "[0..<nat (t d)]" success s calls]
  obtain b1 s1 seg1 where
    run1: "version_loop (logged Z) f M off ?n cache d [0..<nat (t d)] success (s, calls) =
             (Inr b1, (s1, calls @ seg1))"
    and plain1: "version_loop Z f M off ?n cache d [0..<nat (t d)] success s = (Inr b1, s1)"
    and wfr1: "writes_follow_reads M off seg1"
    and ok1: "b1 \<longleftrightarrow> success \<and> list_all call_ok seg1"
    and vis1: "visits seg1 = []"
    and rd1: "reads seg1 = map (\<lambda>v. (cacheNode cache, d, Suc v)) [0..<nat (t d)]"
    by blast
  from Cons.IH[of b1 s1 "calls @ seg1"]
  obtain b s' seg2 where
    run2: "derivative_loop (logged Z) f M off ?n cache t ds b1 (s1, calls @ seg1) =
             (Inr b, (s', (calls @ seg1) @ seg2))"
    and plain2: "derivative_loop Z f M off ?n cache t ds b1 s1 = (Inr b, s')"
    and wfr2: "writes_follow_reads M off seg2"
    and ok2: "b \<longleftrightarrow> b1 \<and> list_all call_ok seg2"
    and vis2: "visits seg2 = []"
    and rd2: "reads seg2 =
        concat (map (\<lambda>d. map (\<lambda>v. (cacheNode cache, d, Suc v)) [0..<nat (t d)]) ds)"
    by blast
  have 1: "derivative_loop (logged Z) f M off ?n cache t (d # ds) success (s, calls) =
             (Inr b, (s', calls @ (seg1 @ seg2)))"
    using run1 run2 by simp
  have 2: "derivative_loop Z f M off ?n cache t (d # ds) success s = (Inr b, s')"
    using plain1 plain2 by simp
  have 3: "writes_follow_reads M off (seg1 @ seg2)"
    using wfr1 wfr2 by (rule wfr_append)
  have 4: "b \<longleftrightarrow> success \<and> list_all call_ok (seg1 @ seg2)"
    using ok1 ok2 by auto
  have 5: "visits (seg1 @ seg2) = []"
    using vis1 vis2 by (simp add: visits_append)
  have 6: "reads (seg1 @ seg2) =
        concat (map (\<lambda>d. map (\<lambda>v. (cacheNode cache, d, Suc v)) [0..<nat (t d)]) (d # ds))"
    using rd1 rd2 by (simp add: reads_append)
  from 1 2 3 4 5 6 show ?case by blast
qed

lemma node_slots_template:
  "node_slots (node, map t value_labels) =
     concat (map (\<lambda>d. map (\<lambda>v. (node, d, Suc v)) [0..<nat (t d)]) value_labels)"
  by (simp add: node_slots_def zip_map2 zip_same_conv_map comp_def)

lemma node_loop_logged:
  assumes conf: "returns_requested_count Z" and val: "passes_validation f M off"
  shows "\<exists>b s' seg.
      node_loop (logged Z) f M off (numberOfComponents f) time ns success (s, calls) =
        (Inr b, (s', calls @ seg))
    \<and> node_loop Z f M off (numberOfComponents f) time ns success s = (Inr b, s')
    \<and> writes_follow_reads M off seg
    \<and> (b \<longleftrightarrow> success \<and> list_all call_ok seg)
    \<and> map fst (visits seg) = ns
    \<and> reads seg = concat (map node_slots (visits seg))"
proof (induction ns arbitrary: success s calls)
  case Nil
  show ?case by simp
next
  case (Cons node ns)
  let ?n = "numberOfComponents f"
  let ?t = "fst (defineFieldFromNode Z f node s)"
  let ?s0 = "snd (defineFieldFromNode Z f node s)"
  let ?def = "CallDefine node (map ?t value_labels)"
  let ?cache = "\<lparr>cacheTime = time, cacheNode = node\<rparr>"
  from derivative_loop_logged[OF conf val, of ?cache ?t value_labels success ?s0 "calls @ [?def]"]
  obtain b1 s1 seg1 where
    run1: "derivative_loop (logged Z) f M off ?n ?cache ?t value_labels success
             (?s0, calls @ [?def]) = (Inr b1, (s1, (calls @ [?def]) @ seg1))"
    and plain1: "derivative_loop Z f M off ?n ?cache ?t value_labels success ?s0 = (Inr b1, s1)"
    and wfr1: "writes_follow_reads M off seg1"
    and ok1: "b1 \<longleftrightarrow> success \<and> list_all call_ok seg1"
    and vis1: "visits seg1 = []"
    and rd1: "reads seg1 =
        concat (map (\<lambda>d. map (\<lambda>v. (cacheNode ?cache, d, Suc v)) [0..<nat (?t d)]) value_labels)"
    by blast
  from Cons.IH[of b1 s1 "calls @ ?def # seg1"]
  obtain b s' seg2 where
    run2: "node_loop (logged Z) f M off ?n time ns b1 (s1, calls @ ?def # seg1) =
             (Inr b, (s', (calls @ ?def # seg1) @ seg2))"
    and plain2: "node_loop Z f M off ?n time ns b1 s1 = (Inr b, s')"
    and wfr2: "writes_follow_reads M off seg2"
    and ok2: "b \<longleftrightarrow> b1 \<and> list_all call_ok seg2"
    and vis2: "map fst (visits seg2) = ns"
    and rd2: "reads seg2 = concat (map node_slots (visits seg2))"
    by blast
  let ?seg = "?def # seg1 @ seg2"
  have 1: "node_loop (logged Z) f M off ?n time (node # ns) success (s, calls) =
             (Inr b, (s', calls @ ?seg))"
    using run1 run2 by (simp add: logged_defineFieldFromNode)
  have 2: "node_loop Z f M off ?n time (node # ns) success s = (Inr b, s')"
    using plain1 plain2 by (simp add: case_prod_beta)
  have 3: "writes_follow_reads M off ?seg"
    using wfr_append[OF wfr1 wfr2] by simp
  have 4: "b \<longleftrightarrow> success \<and> list_all call_ok ?seg"
    using ok1 ok2 by auto
  have 5: "map fst (visits ?seg) = node # ns"
    using vis1 vis2 by (simp add: visits_append)
  have 6: "reads ?seg = concat (map node_slots (visits ?seg))"
    using rd1 rd2 vis1 by (simp add: reads_append visits_append node_slots_template)
  show ?case
    by (rule exI[of _ b], rule exI[of _ s'], rule exI[of _ ?seg]) (intro conjI 1 2 3 4 5 6)
qed

lemma transformCoordinates_valid:
  "passes_validation f M off \<Longrightarrow>
   transformCoordinates Z f M off time s =
     node_loop Z f M off (numberOfComponents f) time (nodesetNodes Z s) True s"
  by (auto simp: transformCoordinates_def passes_validation_def Let_def list_ex_iff list_all_iff)

lemma transformCoordinates_invalid:
  "\<not> passes_validation f M off \<Longrightarrow> transformCoordinates Z f M off time s = (Inr False, s)"
  by (auto simp: transformCoordinates_def passes_validation_def Let_def list_ex_iff list_all_iff)

lemma transformCoordinates_logged:
  assumes conf: "returns_requested_count Z" and val: "passes_validation f M off"
  shows "\<exists>b s' calls.
      transformCoordinates (logged Z) f M off time (s, []) = (Inr b, (s', calls))
    \<and> transformCoordinates Z f M off time s = (Inr b, s')
    \<and> writes_follow_reads M off calls
    \<and> (b \<longleftrightarrow> list_all call_ok calls)
    \<and> map fst (visits calls) = nodesetNodes Z s
    \<and> reads calls = concat (map node_slots (visits calls))"
  using node_loop_logged[OF conf val, of time "nodesetNodes Z s" True s "[]"]
  by (simp add: transformCoordinates_valid[OF val] logged_nodesetNodes)


lemma wfr_writes: "writes_follow_reads M off calls \<Longrightarrow> writes calls = successful_reads calls"
  by (induction M off calls rule: writes_follow_reads.induct) auto

lemma wfr_read_written:
  "writes_follow_reads M off calls \<Longrightarrow> i < length calls \<Longrightarrow>
   calls ! i = CallGet node d v RESULT_OK vals \<Longrightarrow>
   Suc i < length calls \<and> (\<exists>r. calls ! Suc i = CallSet node d v (transformed M off d vals) r)"
proof (induction M off calls arbitrary: i rule: writes_follow_reads.induct)
  case (5 M off n1 d1 v1 r1 vals1 n2 d2 v2 vals2 r2 calls)
  show ?case
  proof (cases i)
    case 0
    with 5 show ?thesis by auto
  next
    case (Suc k)
    show ?thesis
    proof (cases k)
      case 0
      with Suc 5 show ?thesis by auto
    next
      case (Suc m)
      with \<open>i = Suc k\<close> 5 show ?thesis by auto
    qed
  qed
qed (auto simp: nth_Cons split: nat.splits)


lemma write_read_Cons:
  assumes IH: "\<And>j. j < length rest \<Longrightarrow> rest ! j = CallSet node d v nv r \<Longrightarrow>
      \<exists>i vals. j = Suc i \<and> rest ! i = CallGet node d v RESULT_OK vals
               \<and> nv = transformed M off d vals"
    and j: "j < length (x # rest)" "(x # rest) ! j = CallSet node d v nv r"
    and x: "x \<noteq> CallSet node d v nv r"
  shows "\<exists>i vals. j = Suc i \<and> (x # rest) ! i = CallGet node d v RESULT_OK vals
               \<and> nv = transformed M off d vals"
proof (cases j)
  case 0
  with j x show ?thesis by simp
next
  case (Suc k)
  with j have "k < length rest" "rest ! k = CallSet node d v nv r" by simp_all
  from IH[OF this] obtain i vals where
    "k = Suc i" "rest ! i = CallGet node d v RESULT_OK vals" "nv = transformed M off d vals"
    by blast
  with Suc show ?thesis by simp
qed

lemma wfr_induct [consumes 1, case_names no_call template failed_read written]:
  assumes "writes_follow_reads M off calls"
    and "P []"
    and "\<And>node versions calls.
           writes_follow_reads M off calls \<Longrightarrow> P calls \<Longrightarrow> P (CallDefine node versions # calls)"
    and "\<And>node d v r vals calls.
           r \<noteq> RESULT_OK \<Longrightarrow> writes_follow_reads M off calls \<Longrightarrow> P calls \<Longrightarrow>
           P (CallGet node d v r vals # calls)"
    and "\<And>node d v vals r calls.
           writes_follow_reads M off calls \<Longrightarrow> P calls \<Longrightarrow>
           P (CallGet node d v RESULT_OK vals #
              CallSet node d v (transformed M off d vals) r # calls)"
  shows "P calls"
proof -
  have "M' = M \<Longrightarrow> off' = off \<Longrightarrow> writes_follow_reads M' off' calls \<Longrightarrow> P calls"
    for M' off'
    by (induction M' off' calls rule: writes_follow_reads.induct) (auto intro: assms(2-5))
  with assms(1) show ?thesis by blast
qed

lemma wfr_write_read:
  assumes "writes_follow_reads M off calls"
  shows "j < length calls \<Longrightarrow> calls ! j = CallSet node d v newValues r \<Longrightarrow>
   \<exists>i vals. j = Suc i \<and> calls ! i = CallGet node d v RESULT_OK vals
            \<and> newValues = transformed M off d vals"
  using assms
proof (induction arbitrary: j rule: wfr_induct)
  case no_call
  then show ?case by simp
next
  case (template n1 versions calls)
  show ?case
    by (rule write_read_Cons[OF template.IH template.prems]) simp_all
next
  case (failed_read n1 d1 v1 r1 vals1 calls)
  show ?case
    by (rule write_read_Cons[OF failed_read.IH failed_read.prems]) simp_all
next
  case (written n1 d1 v1 vals1 r1 calls)
  show ?case
  proof (cases j)
    case 0
    with written.prems show ?thesis by simp
  next
    case (Suc k)
    show ?thesis
    proof (cases k)
      case 0
      with Suc written.prems show ?thesis by auto
    next
      case (Suc m)
      with \<open>j = Suc k\<close> written.prems
      have "m < length calls" "calls ! m = CallSet node d v newValues r" by simp_all
      from written.IH[OF this] obtain i vals where
        "m = Suc i" "calls ! i = CallGet node d v RESULT_OK vals"
        "newValues = transformed M off d vals" by blast
      with Suc \<open>j = Suc k\<close> show ?thesis by simp
    qed
  qed
qed

lemma store_zinc_simps:
  "nodesetNodes store_zinc = nodeIdentifiers"
  "defineFieldFromNode store_zinc = store_defineFieldFromNode"
  "getNodeParameters store_zinc = store_getNodeParameters"
  "setNodeParameters store_zinc = store_setNodeParameters"
  by (simp_all add: store_zinc_def)

lemma store_returns_requested_count: "returns_requested_count store_zinc"
  by (simp add: returns_requested_count_def store_zinc_simps store_getNodeParameters_def
        split: option.splits)

lemma in_reads: "CallGet node d v r vals \<in> set calls \<Longrightarrow> (node, d, v) \<in> set (reads calls)"
  by (induction calls rule: reads.induct) auto

lemma successful_reads_subset: "set (successful_reads calls) \<subseteq> set (reads calls)"
  by (induction calls rule: reads.induct) auto

lemma failed_read_head:
  assumes w: "writes_follow_reads M off rest"
    and dis: "distinct (reads (CallGet n1 d1 v1 r1 vals1 # rest))"
    and IH: "CallGet node d v r vals \<in> set rest \<Longrightarrow> (node, d, v) \<notin> set (writes rest)"
    and mem: "CallGet node d v r vals \<in> set (CallGet n1 d1 v1 r1 vals1 # rest)"
  shows "(node, d, v) \<notin> set (writes (CallGet n1 d1 v1 r1 vals1 # rest))"
proof (cases "CallGet node d v r vals \<in> set rest")
  case True
  from IH[OF True] show ?thesis by simp
next
  case False
  with mem have "(node, d, v) = (n1, d1, v1)" by simp
  moreover from dis have "(n1, d1, v1) \<notin> set (reads rest)" by simp
  moreover have "set (writes rest) \<subseteq> set (reads rest)"
    using wfr_writes[OF w] successful_reads_subset[of rest] by simp
  ultimately show ?thesis by auto
qed

lemma failed_read_not_written:
  assumes "writes_follow_reads M off calls"
  shows "distinct (reads calls) \<Longrightarrow> CallGet node d v r vals \<in> set calls \<Longrightarrow>
   r \<noteq> RESULT_OK \<Longrightarrow> (node, d, v) \<notin> set (writes calls)"
  using assms
proof (induction rule: wfr_induct)
  case no_call
  then show ?case by simp
next
  case (template n1 versions calls)
  then show ?case by simp
next
  case (failed_read n1 d1 v1 r1 vals1 calls)
  from failed_read.prems(1) have dis: "distinct (reads calls)" by simp
  show ?case
    by (rule failed_read_head[OF failed_read.hyps(2) failed_read.prems(1) _ failed_read.prems(2)])
       (rule failed_read.IH[OF dis _ failed_read.prems(3)])
next
  case (written n1 d1 v1 vals1 r1 calls)
  from written.prems(1) have dis: "distinct (reads calls)"
    and fresh: "(n1, d1, v1) \<notin> set (reads calls)" by simp_all
  from written.prems(2,3) have mem: "CallGet node d v r vals \<in> set calls" by auto
  have ne: "(node, d, v) \<noteq> (n1, d1, v1)"
    using in_reads[OF mem] fresh by auto
  from written.IH[OF dis mem written.prems(3)] ne show ?case by simp
qed

lemma distinct_label_slots:
  "distinct (map fst zs) \<Longrightarrow>
   distinct (concat (map (\<lambda>(d, versions). map (\<lambda>v. (node, d, v + 1)) [0..<nat versions]) zs))"
proof (induction zs)
  case Nil
  then show ?case by simp
next
  case (Cons z zs)
  obtain d k where z: "z = (d, k)" by (cases z)
  have "distinct (map (\<lambda>v. (node, d, v + 1)) [0..<nat k])"
    by (simp add: distinct_map inj_on_def)
  moreover from Cons have "distinct (concat (map (\<lambda>(d, versions).
      map (\<lambda>v. (node, d, v + 1)) [0..<nat versions]) zs))" by simp
  moreover from Cons.prems z have "d \<notin> fst ` set zs" by simp
  then have "set (map (\<lambda>v. (node, d, v + 1)) [0..<nat k]) \<inter>
      set (concat (map (\<lambda>(d, versions). map (\<lambda>v. (node, d, v + 1)) [0..<nat versions]) zs)) = {}"
    by force
  ultimately show ?case using z by simp
qed

lemma distinct_value_labels: "distinct value_labels"
  by (simp add: value_labels_def)

lemma distinct_node_slots: "distinct (node_slots visit)"
proof -
  have "distinct (map fst (zip value_labels (snd visit)))"
    by (simp add: map_fst_zip_take distinct_value_labels)
  from distinct_label_slots[OF this] show ?thesis by (simp add: node_slots_def)
qed

lemma node_slots_node: "slot \<in> set (node_slots visit) \<Longrightarrow> fst slot = fst visit"
  by (auto simp: node_slots_def)

lemma distinct_slots:
  "distinct (map fst visited) \<Longrightarrow> distinct (concat (map node_slots visited))"
proof (induction visited)
  case Nil
  then show ?case by simp
next
  case (Cons x xs)
  have "set (node_slots x) \<inter> set (concat (map node_slots xs)) = {}"
  proof (rule ccontr)
    assume "\<not> ?thesis"
    then obtain slot y where "slot \<in> set (node_slots x)" "y \<in> set xs" "slot \<in> set (node_slots y)"
      by auto
    then have "fst x = fst y" "y \<in> set xs" using node_slots_node by metis+
    with Cons.prems show False by auto
  qed
  with Cons show ?case by (simp add: distinct_node_slots)
qed

lemma writes_only_field_refl: "writes_only_field f x x"
  by (simp add: writes_only_field_def)

lemma writes_only_field_trans:
  assumes ab: "writes_only_field f a b" and bc: "writes_only_field f b c"
  shows "writes_only_field f a c"
proof -
  have sub: "set (writes (snd b)) \<subseteq> set (writes (snd c))"
    using bc by (simp add: writes_only_field_def)
  have "\<exists>node d v. slot = (node, fieldName f, d, v) \<and> (node, d, v) \<in> set (writes (snd c))"
    if ne: "parameters (fst c) slot \<noteq> parameters (fst a) slot" for slot
  proof (cases "parameters (fst c) slot = parameters (fst b) slot")
    case True
    with ne have "parameters (fst b) slot \<noteq> parameters (fst a) slot" by simp
    with ab obtain node d v where
      "slot = (node, fieldName f, d, v)" "(node, d, v) \<in> set (writes (snd b))"
      unfolding writes_only_field_def by blast
    with sub show ?thesis by blast
  next
    case False
    with bc show ?thesis unfolding writes_only_field_def by blast
  qed
  moreover have "nodeIdentifiers (fst c) = nodeIdentifiers (fst a)"
    "versionCount (fst c) = versionCount (fst a)"
    using ab bc by (simp_all add: writes_only_field_def)
  moreover have "set (writes (snd a)) \<subseteq> set (writes (snd b))"
    using ab by (simp add: writes_only_field_def)
  with sub have "set (writes (snd a)) \<subseteq> set (writes (snd c))" by blast
  ultimately show ?thesis unfolding writes_only_field_def by blast
qed

lemma writes_only_field_calls:
  "set (writes calls) \<subseteq> set (writes calls') \<Longrightarrow> writes_only_field f (s, calls) (s, calls')"
  by (simp add: writes_only_field_def)

lemma frame_define:
  "writes_only_field f x (snd (defineFieldFromNode (logged store_zinc) f node x))"
proof (cases x)
  case (Pair s calls)
  have "snd (defineFieldFromNode (logged store_zinc) f node (s, calls)) =
          (s, calls @ [CallDefine node
             (map (fst (defineFieldFromNode store_zinc f node s)) value_labels)])"
    by (simp add: logged_defineFieldFromNode store_zinc_simps store_defineFieldFromNode_def)
  with Pair show ?thesis by (simp add: writes_only_field_calls writes_append)
qed

lemma store_get_state: "snd (store_getNodeParameters f cache d v n s) = s"
  by (simp add: store_getNodeParameters_def split: option.splits)

lemma frame_get:
  "writes_only_field f x (snd (getNodeParameters (logged store_zinc) f cache d v n x))"
proof (cases x)
  case (Pair s calls)
  have "snd (snd (getNodeParameters (logged store_zinc) f cache d v n (s, calls))) =
          calls @ [CallGet (cacheNode cache) d v
             (fst (fst (store_getNodeParameters f cache d v n s)))
             (snd (fst (store_getNodeParameters f cache d v n s)))]"
    and "fst (snd (getNodeParameters (logged store_zinc) f cache d v n (s, calls))) = s"
    by (simp_all add: logged_getNodeParameters store_zinc_simps store_get_state)
  then have "snd (getNodeParameters (logged store_zinc) f cache d v n (s, calls)) =
          (s, calls @ [CallGet (cacheNode cache) d v
             (fst (fst (store_getNodeParameters f cache d v n s)))
             (snd (fst (store_getNodeParameters f cache d v n s)))])"
    by (simp add: prod_eq_iff)
  with Pair show ?thesis by (simp add: writes_only_field_calls writes_append)
qed

lemma store_set_frame:
  "nodeIdentifiers (snd (store_setNodeParameters f cache d v vals s)) = nodeIdentifiers s"
  "versionCount (snd (store_setNodeParameters f cache d v vals s)) = versionCount s"
  "slot \<noteq> (cacheNode cache, fieldName f, d, v) \<Longrightarrow>
     parameters (snd (store_setNodeParameters f cache d v vals s)) slot = parameters s slot"
  by (simp_all add: store_setNodeParameters_def)

lemma frame_set:
  "writes_only_field f x (snd (setNodeParameters (logged store_zinc) f cache d v vals x))"
proof (cases x)
  case (Pair s calls)
  let ?st = "store_setNodeParameters f cache d v vals s"
  have eq: "snd (setNodeParameters (logged store_zinc) f cache d v vals (s, calls)) =
          (snd ?st, calls @ [CallSet (cacheNode cache) d v vals (fst ?st)])"
    by (simp add: logged_setNodeParameters store_zinc_simps)
  have "writes_only_field f (s, calls)
          (snd ?st, calls @ [CallSet (cacheNode cache) d v vals (fst ?st)])"
    unfolding writes_only_field_def fst_conv snd_conv
  proof (intro conjI allI impI)
    fix slot
    assume "parameters (snd ?st) slot \<noteq> parameters s slot"
    then have "slot = (cacheNode cache, fieldName f, d, v)"
      using store_set_frame(3)[of slot cache f d v vals s] by blast
    then show "\<exists>node da va. slot = (node, fieldName f, da, va) \<and>
        (node, da, va) \<in> set (writes (calls @ [CallSet (cacheNode cache) d v vals (fst ?st)]))"
      by (simp add: writes_append)
  qed (auto simp: store_set_frame writes_append)
  with Pair eq show ?thesis by simp
qed

lemma version_loop_raised:
  assumes "fst (fst (getNodeParameters Z f cache d (Suc v) n s)) = RESULT_OK"
    and "matrixvectormult M (snd (fst (getNodeParameters Z f cache d (Suc v) n s))) = Inl e
         \<or> (\<exists>nv. matrixvectormult M (snd (fst (getNodeParameters Z f cache d (Suc v) n s))) = Inr nv
                \<and> (if d = VALUE then add nv off else Inr nv) = Inl e)"
  shows "version_loop Z f M off n cache d (v # vs) success s =
           (Inl e, snd (getNodeParameters Z f cache d (Suc v) n s))"
  using assms by (cases "d = VALUE") (auto simp: case_prod_beta)

lemma version_loop_frame:
  "writes_only_field f x
     (snd (version_loop (logged store_zinc) f M off n cache d vs success x))"
proof (induction vs arbitrary: success x)
  case Nil
  show ?case by (simp add: writes_only_field_refl)
next
  case (Cons v vs)
  let ?Z = "logged store_zinc"
  let ?g = "getNodeParameters ?Z f cache d (Suc v) n x"
  have g: "writes_only_field f x (snd ?g)" by (rule frame_get)
  show ?case
  proof (cases "fst (fst ?g) = RESULT_OK")
    case False
    from version_loop_failed[OF False] writes_only_field_trans[OF g Cons.IH]
    show ?thesis by (simp only:)
  next
    case True
    show ?thesis
    proof (cases "matrixvectormult M (snd (fst ?g))")
      case (Inl e)
      with version_loop_raised[OF True, of M e off vs success] g
      show ?thesis by (simp only: snd_conv simp_thms)
    next
      case (Inr nv)
      show ?thesis
      proof (cases "if d = VALUE then add nv off else Inr nv")
        case (Inl e)
        with Inr have "matrixvectormult M (snd (fst ?g)) = Inl e
          \<or> (\<exists>nv. matrixvectormult M (snd (fst ?g)) = Inr nv
                \<and> (if d = VALUE then add nv off else Inr nv) = Inl e)" by blast
        from version_loop_raised[OF True this] g
        show ?thesis by (simp only: snd_conv)
      next
        case nv': (Inr nv')
        from version_loop_ok[OF True Inr nv']
          writes_only_field_trans[OF g writes_only_field_trans[OF frame_set Cons.IH]]
        show ?thesis by (simp only:)
      qed
    qed
  qed
qed

lemma derivative_loop_frame:
  "writes_only_field f x
     (snd (derivative_loop (logged store_zinc) f M off n cache t ds success x))"
proof (induction ds arbitrary: success x)
  case Nil
  show ?case by (simp add: writes_only_field_refl)
next
  case (Cons d ds)
  let ?r = "version_loop (logged store_zinc) f M off n cache d [0..<nat (t d)] success x"
  have v: "writes_only_field f x (snd ?r)" by (rule version_loop_frame)
  show ?case
  proof (cases "fst ?r")
    case (Inl e)
    with v show ?thesis by (simp add: case_prod_beta Let_def)
  next
    case (Inr b)
    with writes_only_field_trans[OF v Cons.IH] show ?thesis
      by (simp add: case_prod_beta Let_def)
  qed
qed

lemma node_loop_frame:
  "writes_only_field f x (snd (node_loop (logged store_zinc) f M off n time ns success x))"
proof (induction ns arbitrary: success x)
  case Nil
  show ?case by (simp add: writes_only_field_refl)
next
  case (Cons node ns)
  let ?Z = "logged store_zinc"
  let ?d = "defineFieldFromNode ?Z f node x"
  let ?r = "derivative_loop ?Z f M off n \<lparr>cacheTime = time, cacheNode = node\<rparr> (fst ?d)
              value_labels success (snd ?d)"
  have v: "writes_only_field f x (snd ?r)"
    by (rule writes_only_field_trans[OF frame_define derivative_loop_frame])
  show ?case
  proof (cases "fst ?r")
    case (Inl e)
    with v show ?thesis by (simp add: case_prod_beta)
  next
    case (Inr b)
    with writes_only_field_trans[OF v Cons.IH] show ?thesis
      by (simp add: case_prod_beta)
  qed
qed

lemma transformCoordinates_writes_only_field:
  "writes_only_field f x (snd (transformCoordinates (logged store_zinc) f M off time x))"
  by (simp add: transformCoordinates_def Let_def writes_only_field_refl node_loop_frame)

subsection \<open>transformCoordinates: the identity transformation\<close>

lemma identity_transform:
  assumes "n = 2 \<or> n = 3" "length vals = n" "list_all ordinary vals"
  shows "matrixvectormult (identity_matrix n) vals = Inr vals"
    and "add vals (replicate n 0) = Inr vals"
proof -
  from assms consider a b where "n = 2" "vals = [Finite a, Finite b]"
    | a b c where "n = 3" "vals = [Finite a, Finite b, Finite c]"
  proof -
    have fin: "\<exists>a. x = Finite a" if "ordinary x" for x
      using that by (cases x) simp_all
    assume two: "\<And>a b. n = 2 \<Longrightarrow> vals = [Finite a, Finite b] \<Longrightarrow> thesis"
      and three: "\<And>a b c. n = 3 \<Longrightarrow> vals = [Finite a, Finite b, Finite c] \<Longrightarrow> thesis"
    from assms(1) show thesis
    proof
      assume n: "n = 2"
      with assms(2) obtain x y where v: "vals = [x, y]"
        by (auto simp: numeral_2_eq_2 length_Suc_conv)
      with assms(3) fin[of x] fin[of y] obtain a b where "x = Finite a" "y = Finite b" by auto
      with v n two show thesis by simp
    next
      assume n: "n = 3"
      with assms(2) obtain x y z where v: "vals = [x, y, z]"
        by (auto simp: numeral_3_eq_3 length_Suc_conv)
      with assms(3) fin[of x] fin[of y] fin[of z]
      obtain a b c where "x = Finite a" "y = Finite b" "z = Finite c" by auto
      with v n three show thesis by simp
    qed
  qed
  then have "matrixvectormult (identity_matrix n) vals = Inr vals
      \<and> add vals (replicate n 0) = Inr vals"
  proof cases
    case 1
    then show ?thesis
      by (simp add: identity_matrix_def matrixvectormult_def dot_def add_def upt_rec
            numeral_2_eq_2 zero_pyfloat_def one_pyfloat_def plus_pyfloat_def times_pyfloat_def)
  next
    case 2
    then show ?thesis
      by (simp add: identity_matrix_def matrixvectormult_def dot_def add_def upt_rec
            numeral_3_eq_3 zero_pyfloat_def one_pyfloat_def plus_pyfloat_def times_pyfloat_def)
  qed
  then show "matrixvectormult (identity_matrix n) vals = Inr vals"
    and "add vals (replicate n 0) = Inr vals" by simp_all
qed

lemma store_set_same:
  "parameters s (cacheNode cache, fieldName f, d, v) = Some vals \<Longrightarrow>
   length vals = numberOfComponents f \<Longrightarrow>
   store_setNodeParameters f cache d v vals s = (RESULT_OK, s)"
proof -
  assume p: "parameters s (cacheNode cache, fieldName f, d, v) = Some vals"
    and l: "length vals = numberOfComponents f"
  from p have "(parameters s)((cacheNode cache, fieldName f, d, v) := Some vals) = parameters s"
    by (simp add: fun_upd_idem)
  with p l show ?thesis by (simp add: store_setNodeParameters_def)
qed

lemma store_get_stored:
  "parameters s (cacheNode cache, fieldName f, d, v) = Some vals \<Longrightarrow>
   length vals = numberOfComponents f \<Longrightarrow>
   store_getNodeParameters f cache d v (numberOfComponents f) s = ((RESULT_OK, vals), s)"
  by (simp add: store_getNodeParameters_def)

lemma version_loop_identity:
  assumes n: "numberOfComponents f = 2 \<or> numberOfComponents f = 3"
    and st: "list_all (\<lambda>v. version_stored f s (cacheNode cache) d (v + 1)
                          \<and> version_ordinary f s (cacheNode cache) d (v + 1)) vs"
  shows "version_loop store_zinc f (identity_matrix (numberOfComponents f))
           (replicate (numberOfComponents f) 0) (numberOfComponents f) cache d vs success s =
         (Inr success, s)"
  using st
proof (induction vs arbitrary: success)
  case Nil
  show ?case by simp
next
  case (Cons v vs)
  let ?n = "numberOfComponents f"
  from Cons.prems obtain vals where
    p: "parameters s (cacheNode cache, fieldName f, d, Suc v) = Some vals"
    and l: "length vals = ?n" and fin: "list_all ordinary vals"
    by (auto simp: version_stored_def version_ordinary_def split: option.splits)
  have g: "getNodeParameters store_zinc f cache d (Suc v) ?n s = ((RESULT_OK, vals), s)"
    using store_get_stored[OF p l] by (simp add: store_zinc_simps)
  have st: "setNodeParameters store_zinc f cache d (Suc v) vals s = (RESULT_OK, s)"
    using store_set_same[OF p l] by (simp add: store_zinc_simps)
  note id = identity_transform[OF n l fin]
  have "version_loop store_zinc f (identity_matrix ?n) (replicate ?n 0) ?n cache d (v # vs)
          success s =
        version_loop store_zinc f (identity_matrix ?n) (replicate ?n 0) ?n cache d vs success s"
    using id by (subst version_loop_ok[where nv = vals and nv' = vals])
                (simp_all add: g st del: version_loop.simps)
  with Cons show ?case by simp
qed

lemma derivative_loop_identity:
  assumes n: "numberOfComponents f = 2 \<or> numberOfComponents f = 3"
    and st: "list_all (\<lambda>d. list_all (\<lambda>v. version_stored f s node d (v + 1)
                                           \<and> version_ordinary f s node d (v + 1))
                   [0..<versionCount s (node, fieldName f, d)]) ds"
  shows "derivative_loop store_zinc f (identity_matrix (numberOfComponents f))
           (replicate (numberOfComponents f) 0) (numberOfComponents f)
           \<lparr>cacheTime = time, cacheNode = node\<rparr>
           (\<lambda>d. int (versionCount s (node, fieldName f, d))) ds success s =
         (Inr success, s)"
  using st
proof (induction ds arbitrary: success)
  case Nil
  show ?case by simp
next
  case (Cons d ds)
  from Cons.prems have "list_all (\<lambda>v.
        version_stored f s (cacheNode \<lparr>cacheTime = time, cacheNode = node\<rparr>) d (v + 1)
        \<and> version_ordinary f s (cacheNode \<lparr>cacheTime = time, cacheNode = node\<rparr>) d (v + 1))
        [0..<versionCount s (node, fieldName f, d)]" by simp
  from version_loop_identity[OF n this] Cons show ?case by simp
qed

lemma node_loop_identity:
  assumes n: "numberOfComponents f = 2 \<or> numberOfComponents f = 3"
    and st: "list_all (\<lambda>node. list_all (\<lambda>d. list_all (\<lambda>v.
                 version_stored f s node d (v + 1) \<and> version_ordinary f s node d (v + 1))
               [0..<versionCount s (node, fieldName f, d)]) value_labels) ns"
  shows "node_loop store_zinc f (identity_matrix (numberOfComponents f))
           (replicate (numberOfComponents f) 0) (numberOfComponents f) time ns success s =
         (Inr success, s)"
  using st
proof (induction ns arbitrary: success)
  case Nil
  show ?case by simp
next
  case (Cons node ns)
  from Cons.prems have "list_all (\<lambda>d. list_all (\<lambda>v.
        version_stored f s node d (v + 1) \<and> version_ordinary f s node d (v + 1))
        [0..<versionCount s (node, fieldName f, d)]) value_labels" by simp
  from derivative_loop_identity[OF n this] Cons show ?case
    by (simp add: store_zinc_simps store_defineFieldFromNode_def)
qed

lemma identity_passes_validation:
  "numberOfComponents f = 2 \<or> numberOfComponents f = 3 \<Longrightarrow>
   coordinateSystemType f = RECTANGULAR_CARTESIAN \<Longrightarrow> finiteElement f \<Longrightarrow>
   passes_validation f (identity_matrix (numberOfComponents f))
     (replicate (numberOfComponents f) 0)"
  by (auto simp: passes_validation_def identity_matrix_def list_all_iff)

lemma value_only_empty: "value_only f empty_store"
  by (simp add: value_only_def empty_store_def)

lemma value_onlyD:
  assumes "value_only f s"
  shows "versionCount s (node, fieldName f, d) \<le> (if d = VALUE then 1 else 0)"
    and "versionCount s (node, fieldName f, d) = 1 \<Longrightarrow> version_stored f s node d 1"
  using assms unfolding value_only_def by blast+

lemma value_onlyI:
  assumes "\<And>node d. versionCount s (node, fieldName f, d) \<le> (if d = VALUE then 1 else 0)"
    and "\<And>node d. versionCount s (node, fieldName f, d) = 1 \<Longrightarrow> version_stored f s node d 1"
  shows "value_only f s"
  using assms unfolding value_only_def by blast

lemma value_only_createNode:
  assumes "value_only f s"
  shows "value_only f (snd (createNode None [f] s))"
proof (rule value_onlyI)
  fix node d
  show "versionCount (snd (createNode None [f] s)) (node, fieldName f, d)
          \<le> (if d = VALUE then 1 else 0)"
    using value_onlyD(1)[OF assms, of node d]
    by (auto simp: createNode_def Let_def declareField_def split: if_splits)
  show "version_stored f (snd (createNode None [f] s)) node d 1"
    if "versionCount (snd (createNode None [f] s)) (node, fieldName f, d) = 1"
    using that value_onlyD(2)[OF assms, of node d]
    by (auto simp: createNode_def Let_def declareField_def version_stored_def
          split: if_splits option.splits)
qed

lemma value_only_assignReal:
  assumes "value_only f s"
  shows "value_only f (snd (assignReal f cache vals s))"
proof (rule value_onlyI)
  fix node d
  show "versionCount (snd (assignReal f cache vals s)) (node, fieldName f, d)
          \<le> (if d = VALUE then 1 else 0)"
    using value_onlyD(1)[OF assms, of node d] by (auto simp: assignReal_def split: if_splits)
  show "version_stored f (snd (assignReal f cache vals s)) node d 1"
    if "versionCount (snd (assignReal f cache vals s)) (node, fieldName f, d) = 1"
    using that value_onlyD(2)[OF assms, of node d]
    by (auto simp: assignReal_def version_stored_def split: if_splits option.splits)
qed

lemma value_only_loop:
  "value_only f s \<Longrightarrow> value_only f (createNodes_loop f [f] coords s)"
proof (induction coords arbitrary: s)
  case Nil
  then show ?case by simp
next
  case (Cons c cs)
  obtain r s1 where c1: "createNode None [f] s = (r, s1)" by (cases "createNode None [f] s")
  with value_only_createNode[OF Cons.prems] have s1: "value_only f s1" by simp
  show ?case
  proof (cases r)
    case (Inl e)
    with c1 s1 Cons.IH show ?thesis by simp
  next
    case (Inr node)
    with c1 Cons.IH[OF value_only_assignReal[OF s1]] show ?thesis by simp
  qed
qed

lemma value_only_stored:
  assumes "value_only f s"
  shows "parameters_stored f s"
proof -
  have "list_all (\<lambda>v. version_stored f s node d (v + 1)) [0..<versionCount s (node, fieldName f, d)]"
    for node d
  proof -
    from value_onlyD(1)[OF assms, of node d]
    have "versionCount s (node, fieldName f, d) \<le> 1" by (simp split: if_splits)
    then consider "versionCount s (node, fieldName f, d) = 0"
      | "versionCount s (node, fieldName f, d) = 1" by linarith
    then show ?thesis using value_onlyD(2)[OF assms, of node d] by cases simp_all
  qed
  then show ?thesis by (simp add: parameters_stored_def list_all_iff)
qed

lemma createNodes_parameters_stored:
  "createNodes empty_store f coords = Inr s \<Longrightarrow> parameters_stored f s"
  using value_only_stored[OF value_only_loop[OF value_only_empty, of f coords]]
  by (auto simp: createNodes_def defineField_def Let_def split: if_splits)

lemmas createNodes_defs = createNode_def smallestUnused_def declareField_def assignReal_def
     empty_store_def

lemmas pyfloat_defs = zero_pyfloat_def one_pyfloat_def plus_pyfloat_def times_pyfloat_def

lemmas example_defs = transformCoordinates_def example_field_def Let_def value_labels_def
     logged_def store_zinc_def store_defineFieldFromNode_def store_getNodeParameters_def
     store_setNodeParameters_def example_store_gap_def example_store_def
     matrixvectormult_def add_def dot_def upt_rec numeral_2_eq_2

text \<open>
  C7 as stated fails. createNodes builds, for the rectangular cartesian finite element
  field \<open>coordinates\<close> of two components, the nodes 0 and 1 with the coordinates (inf, 2)
  and (-0.0, 1); the store has every parameter set it counts. The identity matrix and the
  zero offset give the second coordinate of node 0 as \<open>0 + 0 * inf + 1 * 2 + 0\<close>, which is
  NaN, and the first coordinate of node 1 as \<open>0 + 1 * -0.0 + 0 * 1 + 0\<close>, which is the
  positive zero: the function returns True and has written (inf, NaN) over (inf, 2) and
  (0.0, 1) over (-0.0, 1).
\<close>

theorem transformCoordinates_identity_counterexample:
  "numberOfComponents example_field = 2
   \<and> coordinateSystemType example_field = RECTANGULAR_CARTESIAN
   \<and> finiteElement example_field
   \<and> createNodes empty_store example_field [[PosInf, Finite 2], [NegZero, Finite 1]] =
       Inr example_store_special
   \<and> nodeIdentifiers example_store_special = [0, 1]
   \<and> parameters_stored example_field example_store_special
   \<and> parameters example_store_special (0, ''coordinates'', VALUE, 1) = Some [PosInf, Finite 2]
   \<and> parameters example_store_special (1, ''coordinates'', VALUE, 1) = Some [NegZero, Finite 1]
   \<and> fst (transformCoordinates store_zinc example_field (identity_matrix 2) (replicate 2 0) 0
             example_store_special) = Inr True
   \<and> parameters
        (snd (transformCoordinates store_zinc example_field (identity_matrix 2) (replicate 2 0) 0
                example_store_special))
        (0, ''coordinates'', VALUE, 1) = Some [PosInf, NaN]
   \<and> parameters
        (snd (transformCoordinates store_zinc example_field (identity_matrix 2) (replicate 2 0) 0
                example_store_special))
        (1, ''coordinates'', VALUE, 1) = Some [Finite 0, Finite 1]"
proof -
  have "createNodes empty_store example_field [[PosInf, Finite 2], [NegZero, Finite 1]] =
          Inr example_store_special"
    by (simp add: createNodes_def defineField_def example_store_special_def example_field_def
          del: createNodes_loop.simps)
  moreover have "nodeIdentifiers example_store_special = [0, 1]"
    and "parameters example_store_special (0, ''coordinates'', VALUE, 1) =
           Some [PosInf, Finite 2]"
    and "parameters example_store_special (1, ''coordinates'', VALUE, 1) =
           Some [NegZero, Finite 1]"
    by (simp_all add: example_store_special_def createNodes_defs example_field_def Let_def upt_rec)
  moreover have "parameters_stored example_field example_store_special"
    by (simp add: example_store_special_def createNodes_defs example_field_def Let_def upt_rec
          parameters_stored_def version_stored_def value_labels_def)
  moreover have "fst (transformCoordinates store_zinc example_field (identity_matrix 2)
                        (replicate 2 0) 0 example_store_special) = Inr True"
    and "parameters
           (snd (transformCoordinates store_zinc example_field (identity_matrix 2)
                   (replicate 2 0) 0 example_store_special))
           (0, ''coordinates'', VALUE, 1) = Some [PosInf, NaN]"
    and "parameters
           (snd (transformCoordinates store_zinc example_field (identity_matrix 2)
                   (replicate 2 0) 0 example_store_special))
           (1, ''coordinates'', VALUE, 1) = Some [Finite 0, Finite 1]"
    by (simp_all add: example_defs example_store_special_def createNodes_defs
          identity_matrix_def pyfloat_defs)
  ultimately show ?thesis by (simp add: example_field_def)
qed

text \<open>
  C7, amended. On the node store of the specification, which stores every parameter set
  it counts, for a rectangular cartesian finite element field of two or three components
  whose stored parameters are all finite and none the negative zero, transformCoordinates
  with the identity matrix and the zero offset returns True and leaves the store, and so
  every nodal parameter of every node, as it was.
\<close>

theorem transformCoordinates_identity:
  assumes "numberOfComponents field = 2 \<or> numberOfComponents field = 3"
    and "coordinateSystemType field = RECTANGULAR_CARTESIAN"
    and "finiteElement field"
    and "parameters_stored field s"
    and "parameters_ordinary field s"
  shows "transformCoordinates store_zinc field (identity_matrix (numberOfComponents field))
           (replicate (numberOfComponents field) 0) time s = (Inr True, s)"
proof -
  from assms(4,5) have "list_all (\<lambda>node. list_all (\<lambda>d. list_all (\<lambda>v.
        version_stored field s node d (v + 1) \<and> version_ordinary field s node d (v + 1))
        [0..<versionCount s (node, fieldName field, d)]) value_labels) (nodesetNodes store_zinc s)"
    by (simp add: parameters_stored_def parameters_ordinary_def store_zinc_simps list_all_iff)
  from node_loop_identity[OF assms(1) this]
  show ?thesis
    by (simp add: transformCoordinates_valid[OF identity_passes_validation[OF assms(1-3)]])
qed

theorem transformCoordinates_identity_witness:
  "(numberOfComponents example_field = 2 \<or> numberOfComponents example_field = 3)
   \<and> coordinateSystemType example_field = RECTANGULAR_CARTESIAN
   \<and> finiteElement example_field
   \<and> parameters_stored example_field example_store_finite
   \<and> parameters_ordinary example_field example_store_finite
   \<and> transformCoordinates store_zinc example_field
        (identity_matrix (numberOfComponents example_field))
        (replicate (numberOfComponents example_field) 0) 0 example_store_finite =
       (Inr True, example_store_finite)"
proof -
  have 1: "numberOfComponents example_field = 2 \<or> numberOfComponents example_field = 3"
    and 2: "coordinateSystemType example_field = RECTANGULAR_CARTESIAN"
    and 3: "finiteElement example_field"
    by (simp_all add: example_field_def)
  have 4: "parameters_stored example_field example_store_finite"
    by (simp add: parameters_stored_def version_stored_def example_field_def
          example_store_finite_def createNodes_defs Let_def upt_rec value_labels_def)
  have 5: "parameters_ordinary example_field example_store_finite"
    by (simp add: parameters_ordinary_def version_ordinary_def example_field_def
          example_store_finite_def createNodes_defs Let_def upt_rec value_labels_def)
  from transformCoordinates_identity[OF 1 2 3 4 5, of 0] 1 2 3 4 5 show ?thesis
    by (simp only: simp_thms)
qed

subsection \<open>transformCoordinates: the claims about a run\<close>

lemma example_validation: "passes_validation example_field [[1, 0], [0, 1]] [1, 0]"
  by (simp add: passes_validation_def example_field_def)

lemma example_gap_run:
  "fst (transformCoordinates (logged store_zinc) example_field [[1, 0], [0, 1]] [1, 0] 0
     (example_store_gap, [])) = Inr False"
  "snd (snd (transformCoordinates (logged store_zinc) example_field [[1, 0], [0, 1]] [1, 0] 0
     (example_store_gap, []))) =
   [CallDefine 1 [1, 2, 0, 0, 0, 0, 0, 0],
    CallGet 1 VALUE 1 RESULT_OK [1, 2], CallSet 1 VALUE 1 [2, 2] RESULT_OK,
    CallGet 1 D_DS1 1 RESULT_OK [1, 0], CallSet 1 D_DS1 1 [1, 0] RESULT_OK,
    CallGet 1 D_DS1 2 UndefinedParameterError [0, 0],
    CallDefine 2 [1, 1, 0, 0, 0, 0, 0, 0],
    CallGet 2 VALUE 1 RESULT_OK [2, 2], CallSet 2 VALUE 1 [3, 2] RESULT_OK,
    CallGet 2 D_DS1 1 RESULT_OK [1, 0], CallSet 2 D_DS1 1 [1, 0] RESULT_OK]"
  by (simp_all add: example_defs)

text \<open>
  C1. For a call that passes validation, on any library that returns as many values as
  requested: in the sequence of calls the run makes, every read that returned RESULT_OK
  with values \<open>vals\<close> is followed at once by the write, to the same node, label and
  version, of the matrix-vector product of rotationScale and \<open>vals\<close>, with the offset
  added componentwise when the label is VALUE and not otherwise; and every write of the
  run is the write that follows such a read.
\<close>

theorem transformCoordinates_writes_transformed:
  assumes "passes_validation field rotationScale offset"
    and "returns_requested_count Z"
    and "transformCoordinates (logged Z) field rotationScale offset time (s, []) =
           (outcome, (s', calls))"
  shows "(\<forall>i node d v vals.
            i < length calls \<and> calls ! i = CallGet node d v RESULT_OK vals \<longrightarrow>
            Suc i < length calls
            \<and> (\<exists>r. calls ! Suc i =
                  CallSet node d v
                    (if d = VALUE
                     then map2 (+) (map (\<lambda>row. dot row vals) rotationScale) offset
                     else map (\<lambda>row. dot row vals) rotationScale) r))
       \<and> (\<forall>j node d v newValues r.
            j < length calls \<and> calls ! j = CallSet node d v newValues r \<longrightarrow>
            (\<exists>i vals. j = Suc i \<and> calls ! i = CallGet node d v RESULT_OK vals
               \<and> newValues = transformed rotationScale offset d vals))"
proof -
  from transformCoordinates_logged[OF assms(2,1), of time s] assms(3)
  have w: "writes_follow_reads rotationScale offset calls" by auto
  show ?thesis
  proof (intro conjI allI impI)
    fix i node d v vals
    assume "i < length calls \<and> calls ! i = CallGet node d v RESULT_OK vals"
    then have "Suc i < length calls
      \<and> (\<exists>r. calls ! Suc i = CallSet node d v (transformed rotationScale offset d vals) r)"
      using wfr_read_written[OF w] by blast
    then show "Suc i < length calls" and "\<exists>r. calls ! Suc i =
                  CallSet node d v
                    (if d = VALUE
                     then map2 (+) (map (\<lambda>row. dot row vals) rotationScale) offset
                     else map (\<lambda>row. dot row vals) rotationScale) r"
      by (simp_all add: transformed_def)
  next
    fix j node d v newValues r
    assume "j < length calls \<and> calls ! j = CallSet node d v newValues r"
    then show "\<exists>i vals. j = Suc i \<and> calls ! i = CallGet node d v RESULT_OK vals
               \<and> newValues = transformed rotationScale offset d vals"
      using wfr_write_read[OF w] by blast
  qed
qed

text \<open>The translation example of the specification, in two components: with the identity
  matrix and offset (1,0) the VALUE parameters (1,2) of node 1 are written back as (2,2)
  and its D_DS1 parameters (1,0) as (1,0).\<close>

theorem transformCoordinates_writes_transformed_witness:
  "passes_validation example_field [[1, 0], [0, 1]] [1, 0]
   \<and> returns_requested_count store_zinc
   \<and> snd (snd (transformCoordinates (logged store_zinc) example_field [[1, 0], [0, 1]] [1, 0] 0
        (example_store_gap, []))) ! 1 = CallGet 1 VALUE 1 RESULT_OK [1, 2]
   \<and> (\<exists>r. snd (snd (transformCoordinates (logged store_zinc) example_field
              [[1, 0], [0, 1]] [1, 0] 0 (example_store_gap, []))) ! Suc 1 =
            CallSet 1 VALUE 1 [2, 2] r)
   \<and> snd (snd (transformCoordinates (logged store_zinc) example_field [[1, 0], [0, 1]] [1, 0] 0
        (example_store_gap, []))) ! 3 = CallGet 1 D_DS1 1 RESULT_OK [1, 0]
   \<and> (\<exists>r. snd (snd (transformCoordinates (logged store_zinc) example_field
              [[1, 0], [0, 1]] [1, 0] 0 (example_store_gap, []))) ! Suc 3 =
            CallSet 1 D_DS1 1 [1, 0] r)"
proof -
  let ?run = "transformCoordinates (logged store_zinc) example_field [[1, 0], [0, 1]] [1, 0] 0
        (example_store_gap, [])"
  have run: "?run = (fst ?run, (fst (snd ?run), snd (snd ?run)))" by simp
  note t = transformCoordinates_writes_transformed
             [OF example_validation store_returns_requested_count run]
  have g1: "snd (snd ?run) ! 1 = CallGet 1 VALUE 1 RESULT_OK [1, 2]"
    and g3: "snd (snd ?run) ! 3 = CallGet 1 D_DS1 1 RESULT_OK [1, 0]"
    and len: "length (snd (snd ?run)) = 11"
    by (simp_all add: example_gap_run)
  note t1 = t[THEN conjunct1, rule_format]
  have "1 < length (snd (snd ?run)) \<and> snd (snd ?run) ! 1 = CallGet 1 VALUE 1 RESULT_OK [1, 2]"
    using g1 len by simp
  from t1[OF this] have w2: "\<exists>r. snd (snd ?run) ! Suc 1 = CallSet 1 VALUE 1 [2, 2] r"
    by (simp add: dot_def)
  have "3 < length (snd (snd ?run)) \<and> snd (snd ?run) ! 3 = CallGet 1 D_DS1 1 RESULT_OK [1, 0]"
    using g3 len by simp
  from t1[OF this] have w4: "\<exists>r. snd (snd ?run) ! Suc 3 = CallSet 1 D_DS1 1 [1, 0] r"
    by (simp add: dot_def)
  from example_validation store_returns_requested_count g1 w2 g3 w4 show ?thesis by blast
qed

text \<open>
  C2. When a precondition fails (the component count is neither 2 nor 3, rotationScale
  has not as many rows, or a row not as many entries, as the field has components, the
  offset has not as many entries, the coordinate system is not rectangular cartesian, or
  the field is not a finite element field), transformCoordinates returns False and the
  state of the library is the one it started from; no call that reads or writes
  parameters is made.
\<close>

theorem transformCoordinates_validation_failure:
  assumes "(numberOfComponents field \<noteq> 2 \<and> numberOfComponents field \<noteq> 3)
      \<or> length rotationScale \<noteq> numberOfComponents field
      \<or> list_ex (\<lambda>matRow. length matRow \<noteq> numberOfComponents field) rotationScale
      \<or> length offset \<noteq> numberOfComponents field
      \<or> coordinateSystemType field \<noteq> RECTANGULAR_CARTESIAN
      \<or> \<not> finiteElement field"
  shows "transformCoordinates Z field rotationScale offset time s = (Inr False, s)
       \<and> transformCoordinates (logged Z) field rotationScale offset time (s, []) =
           (Inr False, (s, []))"
proof -
  from assms have "\<not> passes_validation field rotationScale offset"
    by (auto simp: passes_validation_def list_ex_iff list_all_iff)
  then show ?thesis by (simp add: transformCoordinates_invalid)
qed

theorem transformCoordinates_validation_failure_witness:
  "numberOfComponents (example_field\<lparr>numberOfComponents := 4\<rparr>) \<noteq> 2
   \<and> numberOfComponents (example_field\<lparr>numberOfComponents := 4\<rparr>) \<noteq> 3
   \<and> transformCoordinates store_zinc (example_field\<lparr>numberOfComponents := 4\<rparr>)
        [[1, 0], [0, 1]] [1, 0] 0 example_store = (Inr False, example_store)"
  using transformCoordinates_validation_failure
          [of "example_field\<lparr>numberOfComponents := 4\<rparr>" "[[1, 0], [0, 1]]" "[1, 0]"
              store_zinc 0 example_store]
  by (simp add: example_field_def)

text \<open>
  C3. For a call that passes validation, on any library that returns as many values as
  requested, the sweep runs to its end whatever the reads and writes return: every node
  of the nodeset is visited, in order; for every visited node every version of every label
  is read; every parameter set read with RESULT_OK is written; and the function returns
  True exactly when every read and every write returned RESULT_OK. The calls are those the
  run on the library itself makes: wrapping the library changes neither the result nor
  the state reached.
\<close>

theorem transformCoordinates_sweep_continues:
  assumes "passes_validation field rotationScale offset"
    and "returns_requested_count Z"
  shows "\<exists>success s' calls.
      transformCoordinates (logged Z) field rotationScale offset time (s, []) =
        (Inr success, (s', calls))
    \<and> transformCoordinates Z field rotationScale offset time s = (Inr success, s')
    \<and> map fst (visits calls) = nodesetNodes Z s
    \<and> reads calls = concat (map node_slots (visits calls))
    \<and> writes calls = successful_reads calls
    \<and> (success \<longleftrightarrow> list_all call_ok calls)"
proof -
  from transformCoordinates_logged[OF assms(2,1), of time s]
  obtain b s' calls where
    1: "transformCoordinates (logged Z) field rotationScale offset time (s, []) =
          (Inr b, (s', calls))"
    and 2: "transformCoordinates Z field rotationScale offset time s = (Inr b, s')"
    and w: "writes_follow_reads rotationScale offset calls"
    and 3: "b \<longleftrightarrow> list_all call_ok calls"
    and 4: "map fst (visits calls) = nodesetNodes Z s"
    and 5: "reads calls = concat (map node_slots (visits calls))"
    by blast
  from wfr_writes[OF w] have 6: "writes calls = successful_reads calls" .
  show ?thesis
    by (rule exI[of _ b], rule exI[of _ s'], rule exI[of _ calls]) (intro conjI 1 2 3 4 5 6)
qed

text \<open>On the example store in which node 1 has a version of D_DS1 that is not stored, the
  read of that version fails, node 2 is visited and transformed all the same, and the
  function returns False.\<close>

theorem transformCoordinates_sweep_continues_witness:
  "passes_validation example_field [[1, 0], [0, 1]] [1, 0]
   \<and> returns_requested_count store_zinc
   \<and> (\<exists>s' calls.
        transformCoordinates (logged store_zinc) example_field [[1, 0], [0, 1]] [1, 0] 0
          (example_store_gap, []) = (Inr False, (s', calls))
        \<and> map fst (visits calls) = [1, 2]
        \<and> CallGet 1 D_DS1 2 UndefinedParameterError [0, 0] \<in> set calls
        \<and> CallSet 2 VALUE 1 [3, 2] RESULT_OK \<in> set calls
        \<and> \<not> list_all call_ok calls)"
proof -
  let ?run = "transformCoordinates (logged store_zinc) example_field [[1, 0], [0, 1]] [1, 0] 0
        (example_store_gap, [])"
  from transformCoordinates_sweep_continues
         [OF example_validation store_returns_requested_count, of 0 example_store_gap]
  obtain success s' calls where
    run: "?run = (Inr success, (s', calls))"
    and vis: "map fst (visits calls) = nodesetNodes store_zinc example_store_gap"
    and ok: "success \<longleftrightarrow> list_all call_ok calls"
    by blast
  from run example_gap_run(1) have f: "success = False" by simp
  from run example_gap_run(2) have c: "CallGet 1 D_DS1 2 UndefinedParameterError [0, 0] \<in> set calls"
    "CallSet 2 VALUE 1 [3, 2] RESULT_OK \<in> set calls" by simp_all
  from vis have v: "map fst (visits calls) = [1, 2]"
    by (simp add: store_zinc_simps example_store_gap_def example_store_def)
  from run f have r: "?run = (Inr False, (s', calls))" by simp
  from f ok have n: "\<not> list_all call_ok calls" by simp
  show ?thesis
    by (intro conjI exI[of _ s'] exI[of _ calls])
       (rule example_validation store_returns_requested_count r v c n)+
qed

text \<open>
  C9. On the node store of the specification, with the calls of the run recorded: a
  parameter set whose read did not return RESULT_OK is not among the writes called and is
  stored after the run as before it; the parameters of every other field, the nodes and
  the version counts are after the run as before it.
\<close>

theorem transformCoordinates_writes_only_its_field:
  assumes "distinct (nodeIdentifiers s)"
    and "transformCoordinates (logged store_zinc) field rotationScale offset time (s, []) =
           (outcome, (s', calls))"
  shows "(\<forall>node d v r vals.
            CallGet node d v r vals \<in> set calls \<and> r \<noteq> RESULT_OK \<longrightarrow>
            (node, d, v) \<notin> set (writes calls)
            \<and> parameters s' (node, fieldName field, d, v) =
                parameters s (node, fieldName field, d, v))
       \<and> (\<forall>node name d v. name \<noteq> fieldName field \<longrightarrow>
            parameters s' (node, name, d, v) = parameters s (node, name, d, v))
       \<and> nodeIdentifiers s' = nodeIdentifiers s
       \<and> versionCount s' = versionCount s"
proof -
  from transformCoordinates_writes_only_field[of field "(s, [])" rotationScale offset time]
    assms(2)
  have frame: "writes_only_field field (s, []) (s', calls)" by simp
  have failed: "(node, d, v) \<notin> set (writes calls)"
    if mem: "CallGet node d v r vals \<in> set calls" and r: "r \<noteq> RESULT_OK" for node d v r vals
  proof (cases "passes_validation field rotationScale offset")
    case False
    from transformCoordinates_invalid[OF False, of "logged store_zinc" time "(s, [])"]
      assms(2) mem show ?thesis by simp
  next
    case True
    from transformCoordinates_logged[OF store_returns_requested_count True, of time s] assms(2)
    have w: "writes_follow_reads rotationScale offset calls"
      and vis: "map fst (visits calls) = nodesetNodes store_zinc s"
      and rd: "reads calls = concat (map node_slots (visits calls))"
      by auto
    from vis assms(1) have "distinct (map fst (visits calls))" by (simp add: store_zinc_simps)
    from distinct_slots[OF this] rd have "distinct (reads calls)" by simp
    from failed_read_not_written[OF w this mem r] show ?thesis .
  qed
  show ?thesis
  proof (intro conjI allI impI)
    fix node d v r vals
    assume a: "CallGet node d v r vals \<in> set calls \<and> r \<noteq> RESULT_OK"
    then show nw: "(node, d, v) \<notin> set (writes calls)" using failed by blast
    show "parameters s' (node, fieldName field, d, v) = parameters s (node, fieldName field, d, v)"
    proof (rule ccontr)
      assume "parameters s' (node, fieldName field, d, v) \<noteq>
              parameters s (node, fieldName field, d, v)"
      with frame have "(node, d, v) \<in> set (writes calls)"
        by (auto simp: writes_only_field_def)
      with nw show False by simp
    qed
  next
    fix node name d v
    assume "name \<noteq> fieldName field"
    with frame show "parameters s' (node, name, d, v) = parameters s (node, name, d, v)"
      by (auto simp: writes_only_field_def)
  next
    from frame show "nodeIdentifiers s' = nodeIdentifiers s" "versionCount s' = versionCount s"
      by (simp_all add: writes_only_field_def)
  qed
qed

theorem transformCoordinates_writes_only_its_field_witness:
  "distinct (nodeIdentifiers example_store_gap)
   \<and> CallGet 1 D_DS1 2 UndefinedParameterError [0, 0] \<in>
       set (snd (snd (transformCoordinates (logged store_zinc) example_field
                        [[1, 0], [0, 1]] [1, 0] 0 (example_store_gap, []))))
   \<and> (1, D_DS1, 2) \<notin>
       set (writes (snd (snd (transformCoordinates (logged store_zinc) example_field
                        [[1, 0], [0, 1]] [1, 0] 0 (example_store_gap, [])))))
   \<and> parameters (fst (snd (transformCoordinates (logged store_zinc) example_field
                        [[1, 0], [0, 1]] [1, 0] 0 (example_store_gap, []))))
        (1, ''coordinates'', D_DS1, 2) = None
   \<and> parameters (fst (snd (transformCoordinates (logged store_zinc) example_field
                        [[1, 0], [0, 1]] [1, 0] 0 (example_store_gap, []))))
        (1, ''pressure'', VALUE, 1) = Some [9]"
proof -
  let ?run = "transformCoordinates (logged store_zinc) example_field [[1, 0], [0, 1]] [1, 0] 0
        (example_store_gap, [])"
  have run: "?run = (fst ?run, (fst (snd ?run), snd (snd ?run)))" by simp
  have d: "distinct (nodeIdentifiers example_store_gap)"
    by (simp add: example_store_gap_def example_store_def)
  note t = transformCoordinates_writes_only_its_field[OF d run]
  have mem: "CallGet 1 D_DS1 2 UndefinedParameterError [0, 0] \<in> set (snd (snd ?run))
             \<and> UndefinedParameterError \<noteq> RESULT_OK"
    by (simp add: example_gap_run)
  from t[THEN conjunct1, rule_format, OF mem]
  have 1: "(1, D_DS1, 2) \<notin> set (writes (snd (snd ?run)))"
    and 2: "parameters (fst (snd ?run)) (1, ''coordinates'', D_DS1, 2) = None"
    by (simp_all add: example_field_def example_store_gap_def example_store_def)
  have "''pressure'' \<noteq> fieldName example_field" by (simp add: example_field_def)
  from t[THEN conjunct2, THEN conjunct1, rule_format, OF this, of 1 VALUE 1]
  have 3: "parameters (fst (snd ?run)) (1, ''pressure'', VALUE, 1) = Some [9]"
    by (simp add: example_store_gap_def example_store_def)
  from d mem 1 2 3 show ?thesis by blast
qed

end
